theory Spec2Isabelle
  imports Main "HOL-Library.Word" "HOL-Library.Signed_Division" "HOL-Library.Sublist"
begin

section \<open>The tree-walking interpreter of \<^verbatim>\<open>parser.tab.c\<close>\<close>

text \<open>
  The user prologue of \<^verbatim>\<open>parser.tab.c\<close> (lines 84 to 340) holds the whole interpreter:
  the node constructors, the vertical tree printer, \<^verbatim>\<open>eval_expr\<close>, \<^verbatim>\<open>execute_stmt\<close> and
  \<^verbatim>\<open>execute_list\<close>. The grammar actions (lines 1383 to 1560) call the constructors and,
  once the start symbol is reduced, \<^verbatim>\<open>execute_list\<close>. This theory embeds those functions.
\<close>

subsection \<open>Values and their decimal rendering\<close>

text \<open>
  A C \<^verbatim>\<open>int\<close> is a 32-bit word read in two's complement. The sums, differences and
  products of the interpreter wrap around, as the compiled program's do.
\<close>

type_synonym int32 = "32 word"

text \<open>What \<^verbatim>\<open>printf("%d")\<close> writes for a value: an optional minus sign and the decimal digits.\<close>

function show_nat :: "nat \<Rightarrow> string" where
  "show_nat n =
     (if n < 10 then [''0123456789'' ! n]
      else show_nat (n div 10) @ [''0123456789'' ! (n mod 10)])"
  by pat_completeness auto
termination
  by (relation "measure id") auto

declare show_nat.simps [simp del]

definition show_int :: "int \<Rightarrow> string" where
  "show_int i = (if i < 0 then CHR ''-'' # show_nat (nat (- i)) else show_nat (nat i))"

definition show_d :: "int32 \<Rightarrow> string" where
  "show_d v = show_int (sint v)"

text \<open>
  The C operator \<^verbatim>\<open>/\<close> on \<^verbatim>\<open>int\<close> truncates towards zero. It has no result when the
  divisor is 0 and when the quotient does not fit, which is the case for
  \<^verbatim>\<open>INT_MIN / -1\<close> only: the machine instruction traps and the program is killed.
\<close>

definition c_div :: "int32 \<Rightarrow> int32 \<Rightarrow> int32 option" where
  "c_div a b =
     (if b = 0 \<or> (sint a = - (2 ^ 31) \<and> sint b = - 1) then None
      else Some (word_of_int (sint a sdiv sint b)))"

definition c_bool :: "bool \<Rightarrow> int32" where
  "c_bool b = (if b then 1 else 0)"

subsection \<open>Nodes\<close>

datatype kind =
    N_UNKNOWN
  | N_INT
  | N_VAR
  | N_OP
  | N_DECL
  | N_ASSIGN
  | N_PRINT
  | N_IF
  | N_BRANCHES
  | N_STMTLIST

text \<open>
  A value of type \<open>node\<close> is what a \<^verbatim>\<open>Node *\<close> points to: \<open>Null\<close> is the null pointer,
  \<open>Node label left right kind int_value var_id\<close> a struct with its six fields in the
  order of the declaration. The program never shares or mutates a node after building
  it, so the tree itself stands for the heap. A label is never the null pointer:
  \<^verbatim>\<open>new_node_kind\<close> stores \<^verbatim>\<open>strdup(label ? label : "")\<close>. When \<^verbatim>\<open>malloc\<close> fails the
  program exits before any statement is executed; the embedding starts from built trees.
\<close>

datatype node =
    Null
  | Node (label: string) (left: node) (right: node) (kind: kind) (int_value: int32) (var_id: int32)

definition new_node_kind :: "string \<Rightarrow> kind \<Rightarrow> node \<Rightarrow> node \<Rightarrow> node" where
  "new_node_kind lbl k l r = Node lbl l r k 0 (- 1)"

definition new_int_node :: "int32 \<Rightarrow> node" where
  "new_int_node v = Node (''INTEGER('' @ show_d v @ '')'') Null Null N_INT v (- 1)"

definition new_var_node :: "int32 \<Rightarrow> node" where
  "new_var_node ident = Node (''VAR(id='' @ show_d ident @ '')'') Null Null N_VAR 0 ident"

definition new_op_node :: "string \<Rightarrow> node \<Rightarrow> node \<Rightarrow> node" where
  "new_op_node opr l r = new_node_kind opr N_OP l r"

definition new_decl_node :: "node \<Rightarrow> node \<Rightarrow> node" where
  "new_decl_node varNode exprNode = new_node_kind ''dec'' N_DECL varNode exprNode"

definition new_assign_node :: "node \<Rightarrow> node \<Rightarrow> node" where
  "new_assign_node varNode exprNode = new_node_kind ''assign'' N_ASSIGN varNode exprNode"

definition new_print_node :: "node \<Rightarrow> node" where
  "new_print_node exprNode = new_node_kind ''print'' N_PRINT exprNode Null"

definition new_if_node :: "node \<Rightarrow> node \<Rightarrow> node \<Rightarrow> node" where
  "new_if_node cond thenList elseList =
     (let branches = new_node_kind ''branches'' N_BRANCHES thenList elseList
      in new_node_kind ''if'' N_IF cond branches)"

definition new_stmtlist_node :: "node \<Rightarrow> node \<Rightarrow> node" where
  "new_stmtlist_node prevList stmt = new_node_kind ''stmtlist'' N_STMTLIST prevList stmt"

subsection \<open>The grammar actions that build statements\<close>

text \<open>Rule 3, \<^verbatim>\<open>stmts: %empty\<close>: the empty statement list is the null pointer.\<close>

definition stmts_empty :: node where
  "stmts_empty = Null"

text \<open>Rule 4, \<^verbatim>\<open>stmts: stmts stmt\<close>.\<close>

definition stmts_append :: "node \<Rightarrow> node \<Rightarrow> node" where
  "stmts_append prev stmt =
     (if prev = Null then new_stmtlist_node Null stmt else new_stmtlist_node prev stmt)"

text \<open>Rules 13 and 14, the two forms of \<^verbatim>\<open>IfStatement\<close>; rule 15 makes a block its statement list.\<close>

definition if_else_action :: "node \<Rightarrow> node \<Rightarrow> node \<Rightarrow> node" where
  "if_else_action cond thenBlock elseBlock = new_if_node cond thenBlock elseBlock"

definition if_action :: "node \<Rightarrow> node \<Rightarrow> node" where
  "if_action cond thenBlock = new_if_node cond thenBlock Null"

subsection \<open>The run-time state\<close>

text \<open>
  The globals the interpreter touches: the array \<^verbatim>\<open>int sym[256]\<close> (the field
  \<open>sym_tab\<close>, since \<open>sym\<close> is a constant of HOL), the three output
  files and the scanner's line counter. A file is the list of the pieces written to it,
  oldest first: one piece per \<^verbatim>\<open>fprintf\<close> on \<^verbatim>\<open>yyout\<close> and on \<^verbatim>\<open>yyError\<close>, and one piece
  per call of \<^verbatim>\<open>print_tree_header\<close> on \<^verbatim>\<open>yytree\<close>; the bytes of the file are their
  concatenation.
\<close>

record state =
  sym_tab :: "int32 list"
  yyout :: "string list"
  yytree :: "string list"
  yyError :: "string list"
  yylineno :: int32

text \<open>A C global without initialiser starts as zeros; \<^verbatim>\<open>main\<close> opens the files empty.\<close>

definition init_state :: "int32 \<Rightarrow> state" where
  "init_state line =
     \<lparr>sym_tab = replicate 256 0, yyout = [], yytree = [], yyError = [], yylineno = line\<rparr>"

text \<open>
  \<^verbatim>\<open>yyerror\<close> writes to \<^verbatim>\<open>yyError\<close>, which is \<^verbatim>\<open>outError.txt\<close> or, when that file could
  not be opened, \<^verbatim>\<open>stderr\<close>: one stream of lines in either case.
\<close>

definition yyerror :: "string \<Rightarrow> state \<Rightarrow> state" where
  "yyerror msg s =
     s\<lparr>yyError := yyError s @
        [''Error: '' @ msg @ '' at line '' @ show_d (yylineno s) @ ''\<newline>'']\<rparr>"

text \<open>
  Three places of the interpreter have no defined result in C, and a run that reaches
  one stops there: the division \<^verbatim>\<open>L / R\<close> of \<^verbatim>\<open>eval_expr\<close> when the quotient does not fit
  (only \<^verbatim>\<open>R == 0\<close> is tested), the read \<^verbatim>\<open>varNode->kind\<close> of \<^verbatim>\<open>execute_stmt\<close> when
  \<^verbatim>\<open>stmt->left\<close> is the null pointer, and the write \<^verbatim>\<open>sym[id] = val\<close> when the id is out
  of range. Such a run ends in \<open>Inl (f, s)\<close>, with the state \<open>s\<close> reached when it stopped;
  a run that returns ends in \<open>Inr\<close>.
\<close>

datatype fault = DivisionOverflow | NullDereference | SymIndexOutOfRange

subsection \<open>The tree printer\<close>

text \<open>
  \<^verbatim>\<open>printTreeVertical\<close> adds 5 to \<open>space\<close>, prints the right subtree, a newline,
  \<open>space - 5\<close> blanks (the loop runs from 5 up to \<open>space\<close>), the label and a newline, and
  then the left subtree. \<^verbatim>\<open>print_tree_header\<close> prints a tree from \<open>space = 0\<close> and the
  separator line after it.
\<close>

fun printTreeVertical :: "node \<Rightarrow> nat \<Rightarrow> string" where
  "printTreeVertical Null space = []"
| "printTreeVertical (Node lbl l r k iv vid) space =
     printTreeVertical r (space + 5)
     @ ''\<newline>'' @ replicate ((space + 5) - 5) CHR '' '' @ lbl @ ''\<newline>''
     @ printTreeVertical l (space + 5)"

definition separator :: string where
  "separator =
     ''\<newline>--------------------------------------------------\<newline>\<newline>''"

definition tree_block :: "node \<Rightarrow> string" where
  "tree_block n = printTreeVertical n 0 @ separator"

definition print_tree_header :: "node \<Rightarrow> state \<Rightarrow> state" where
  "print_tree_header n s =
     (if n = Null then s else s\<lparr>yytree := yytree s @ [tree_block n]\<rparr>)"

subsection \<open>Evaluating expressions\<close>

definition in_sym_range :: "int32 \<Rightarrow> bool" where
  "in_sym_range ident \<longleftrightarrow> 0 \<le> sint ident \<and> sint ident < 256"

fun eval_expr :: "node \<Rightarrow> state \<Rightarrow> (fault \<times> state) + (int32 \<times> state)" where
  "eval_expr Null s = Inr (0, s)"
| "eval_expr (Node lbl l r k iv vid) s =
     (case k of
        N_INT \<Rightarrow> Inr (iv, s)
      | N_VAR \<Rightarrow>
          (if in_sym_range vid then Inr (sym_tab s ! nat (sint vid), s) else Inr (0, s))
      | N_OP \<Rightarrow>
          (case eval_expr l s of
             Inl f \<Rightarrow> Inl f
           | Inr (L, s1) \<Rightarrow>
          (case eval_expr r s1 of
             Inl f \<Rightarrow> Inl f
           | Inr (R, s2) \<Rightarrow>
             if lbl = ''+'' then Inr (L + R, s2)
             else if lbl = ''-'' then Inr (L - R, s2)
             else if lbl = ''*'' then Inr (L * R, s2)
             else if lbl = ''/'' then
               (if R = 0 then Inr (0, yyerror ''Division by zero'' s2)
                else (case c_div L R of
                        None \<Rightarrow> Inl (DivisionOverflow, s2)
                      | Some q \<Rightarrow> Inr (q, s2)))
             else if lbl = ''=='' then Inr (c_bool (L = R), s2)
             else if lbl = ''!='' then Inr (c_bool (L \<noteq> R), s2)
             else if lbl = ''<='' then Inr (c_bool (L \<le>s R), s2)
             else if lbl = ''>='' then Inr (c_bool (R \<le>s L), s2)
             else if lbl = ''<'' then Inr (c_bool (L <s R), s2)
             else if lbl = ''>'' then Inr (c_bool (R <s L), s2)
             else Inr (0, yyerror ''Unknown operator in eval_expr'' s2)))
      | _ \<Rightarrow> Inr (0, yyerror ''eval_expr: expected expression node'' s))"

subsection \<open>Executing statements\<close>

definition store_var :: "string \<Rightarrow> int32 \<Rightarrow> int32 \<Rightarrow> state \<Rightarrow> (fault \<times> state) + state" where
  "store_var verb ident val s =
     (if in_sym_range ident then
        Inr (s\<lparr>sym_tab := (sym_tab s)[nat (sint ident) := val],
               yyout := yyout s @
                 [verb @ '' var['' @ show_d ident @ ''] = '' @ show_d val @ ''\<newline>'']\<rparr>)
      else Inl (SymIndexOutOfRange, s))"

function execute_stmt :: "node \<Rightarrow> state \<Rightarrow> (fault \<times> state) + state"
  and execute_list :: "node \<Rightarrow> state \<Rightarrow> (fault \<times> state) + state" where
  "execute_stmt Null s = Inr s"
| "execute_stmt (Node lbl l r k iv vid) s =
     (let s0 = print_tree_header (Node lbl l r k iv vid) s in
      case k of
        N_DECL \<Rightarrow>
          (case eval_expr r s0 of
             Inl f \<Rightarrow> Inl f
           | Inr (val, s1) \<Rightarrow>
             (case l of
                Null \<Rightarrow> Inl (NullDereference, s1)
              | Node vlbl vl vr vk viv ident \<Rightarrow>
                  if vk = N_VAR then store_var ''Declared'' ident val s1
                  else Inr (yyerror ''Declaration left side is not a variable'' s1)))
      | N_ASSIGN \<Rightarrow>
          (case eval_expr r s0 of
             Inl f \<Rightarrow> Inl f
           | Inr (val, s1) \<Rightarrow>
             (case l of
                Null \<Rightarrow> Inl (NullDereference, s1)
              | Node vlbl vl vr vk viv ident \<Rightarrow>
                  if vk = N_VAR then store_var ''Assigned'' ident val s1
                  else Inr (yyerror ''Assignment left side is not a variable'' s1)))
      | N_PRINT \<Rightarrow>
          (case eval_expr l s0 of
             Inl f \<Rightarrow> Inl f
           | Inr (val, s1) \<Rightarrow>
             Inr (s1\<lparr>yyout := yyout s1 @ [''Print: '' @ show_d val @ ''\<newline>'']\<rparr>))
      | N_IF \<Rightarrow>
          (case eval_expr l s0 of
             Inl f \<Rightarrow> Inl f
           | Inr (cond_val, s1) \<Rightarrow>
             (case r of
                Null \<Rightarrow> Inr (yyerror ''If branches malformed'' s1)
              | Node blbl thenList elseList bk biv bvid \<Rightarrow>
                  if bk = N_BRANCHES then
                    (if cond_val \<noteq> 0 then execute_list thenList s1
                     else execute_list elseList s1)
                  else Inr (yyerror ''If branches malformed'' s1)))
      | N_STMTLIST \<Rightarrow> execute_list (Node lbl l r k iv vid) s0
      | _ \<Rightarrow> Inr (yyerror ''Unknown statement kind in execute_stmt'' s0))"
| "execute_list Null s = Inr s"
| "execute_list (Node lbl l r k iv vid) s =
     (if k = N_STMTLIST then
        (case execute_list l s of
           Inl f \<Rightarrow> Inl f
         | Inr s1 \<Rightarrow> execute_stmt r s1)
      else execute_stmt (Node lbl l r k iv vid) s)"
  by pat_completeness auto
termination
  by (relation "measure (\<lambda>x. case x of
         Inl (n, s) \<Rightarrow> 3 * size n + 1
       | Inr (n, s) \<Rightarrow> 3 * size n +
           (case n of Null \<Rightarrow> 0 | Node lbl l r k iv vid \<Rightarrow> if k = N_STMTLIST then 0 else 2))")
    (auto split: node.splits)

declare execute_stmt.simps [simp del] execute_list.simps [simp del]

text \<open>Rule 2, \<^verbatim>\<open>program: stmts\<close>: the finished tree is executed from the start state.\<close>

definition run_program :: "int32 \<Rightarrow> node \<Rightarrow> (fault \<times> state) + state" where
  "run_program line root = execute_list root (init_state line)"

subsection \<open>Notions used to state the properties\<close>

text \<open>A source text \<^verbatim>\<open>s1 s2 ... sn\<close> reduces by rules 3 and 4 to this tree.\<close>

definition stmts_of :: "node list \<Rightarrow> node" where
  "stmts_of xs = foldl stmts_append stmts_empty xs"

text \<open>Executing statements one after the other, first to last, stopping at a fault.\<close>

fun exec_in_order :: "node list \<Rightarrow> state \<Rightarrow> (fault \<times> state) + state" where
  "exec_in_order [] s = Inr s"
| "exec_in_order (x # xs) s =
     (case execute_stmt x s of Inl f \<Rightarrow> Inl f | Inr s1 \<Rightarrow> exec_in_order xs s1)"

text \<open>
  A state with the trace file emptied, or with pieces put in front of the trace file; a
  change of state applied to the state of a result, whether it returned or stopped; and
  a result with the trace file left out of the comparison.
\<close>

definition erase_trace :: "state \<Rightarrow> state" where
  "erase_trace s = s\<lparr>yytree := []\<rparr>"

definition prepend_trace :: "string list \<Rightarrow> state \<Rightarrow> state" where
  "prepend_trace p s = s\<lparr>yytree := p @ yytree s\<rparr>"

definition on_value :: "(state \<Rightarrow> state) \<Rightarrow> (fault \<times> state) + (int32 \<times> state)
    \<Rightarrow> (fault \<times> state) + (int32 \<times> state)" where
  "on_value f res = map_sum (apsnd f) (apsnd f) res"

definition on_state :: "(state \<Rightarrow> state) \<Rightarrow> (fault \<times> state) + state \<Rightarrow> (fault \<times> state) + state" where
  "on_state f res = map_sum (apsnd f) f res"

definition outcome :: "(fault \<times> state) + state \<Rightarrow> (fault \<times> state) + state" where
  "outcome res = on_state erase_trace res"

text \<open>
  The ids that some declaration or assignment of a tree names as its target, and what it
  means for a run to leave the slots of all other ids in range alone.
\<close>

fun assigned_ids :: "node \<Rightarrow> int32 set" where
  "assigned_ids Null = {}"
| "assigned_ids (Node lbl l r k iv vid) =
     (if k = N_DECL \<or> k = N_ASSIGN then
        (case l of
           Null \<Rightarrow> {}
         | Node vlbl vl vr vk viv ident \<Rightarrow> if vk = N_VAR then {ident} else {})
      else {})
     \<union> assigned_ids l \<union> assigned_ids r"

definition keeps_unassigned :: "int32 set \<Rightarrow> int32 list \<Rightarrow> int32 list \<Rightarrow> bool" where
  "keeps_unassigned ids tab tab' \<longleftrightarrow>
     length tab' = length tab \<and>
     (\<forall>ident. in_sym_range ident \<and> ident \<notin> ids \<longrightarrow>
        tab' ! nat (sint ident) = tab ! nat (sint ident))"

text \<open>A statement node of one of the three kinds that hold no further statements.\<close>

definition plain_stmt :: "node \<Rightarrow> bool" where
  "plain_stmt n \<longleftrightarrow> n \<noteq> Null \<and> (kind n = N_DECL \<or> kind n = N_ASSIGN \<or> kind n = N_PRINT)"

text \<open>
  The state a run has reached when it ends, whether it returned or stopped; and what it
  means for a state to differ from another by added error lines only.
\<close>

definition reached :: "(fault \<times> state) + state \<Rightarrow> state" where
  "reached res = (case res of Inl (f, s) \<Rightarrow> s | Inr s \<Rightarrow> s)"

definition frame :: "state \<Rightarrow> state \<Rightarrow> bool" where
  "frame s s' \<longleftrightarrow>
     sym_tab s' = sym_tab s \<and> yyout s' = yyout s \<and> yytree s' = yytree s
     \<and> yylineno s' = yylineno s \<and> (\<exists>errs. yyError s' = yyError s @ errs)"

section \<open>Facts about evaluation and execution\<close>

text \<open>
  Evaluation reads the variables and can only add lines to the error file, whether it
  returns or stops.
\<close>

lemma frame_refl: "frame s s"
  by (simp add: frame_def)

lemma frame_trans: "frame a b \<Longrightarrow> frame b c \<Longrightarrow> frame a c"
  by (auto simp: frame_def)

lemma frame_yyerror: "frame s (yyerror m s)"
  by (simp add: frame_def yyerror_def)

lemma eval_op_cases:
  assumes l: "eval_expr l s = Inr (L, s1)" and r: "eval_expr r s1 = Inr (R, s2)"
  shows "(\<exists>v. eval_expr (Node lbl l r N_OP iv vid) s = Inr (v, s2))
       \<or> (\<exists>m. eval_expr (Node lbl l r N_OP iv vid) s = Inr (0, yyerror m s2))
       \<or> eval_expr (Node lbl l r N_OP iv vid) s = Inl (DivisionOverflow, s2)"
proof -
  define ok where "ok x \<longleftrightarrow>
      (\<exists>v. x = Inr (v, s2)) \<or> (\<exists>m. x = Inr (0, yyerror m s2)) \<or> x = Inl (DivisionOverflow, s2)"
    for x :: "(fault \<times> state) + (int32 \<times> state)"
  have 1: "ok (Inr (v, s2))" for v by (simp add: ok_def)
  have 2: "ok (Inr (0, yyerror m s2))" for m by (auto simp: ok_def)
  have 3: "ok (Inl (DivisionOverflow, s2))" by (simp add: ok_def)
  have "ok (eval_expr (Node lbl l r N_OP iv vid) s)"
    using l r by (simp add: 1 2 3 split: option.split)
  then show ?thesis unfolding ok_def .
qed

lemma eval_expr_frame_any:
  "(eval_expr n s = Inr (v, s') \<longrightarrow> frame s s') \<and> (eval_expr n s = Inl (f, s') \<longrightarrow> frame s s')"
proof (induction n arbitrary: s v f s')
  case Null
  show ?case by (simp add: frame_refl)
next
  case (Node lbl l r k iv vid)
  show ?case
  proof (cases k)
    case N_OP
    show ?thesis
    proof (cases "eval_expr l s")
      case (Inl fl)
      with N_OP Node.IH(1)[where s = s and f = "fst fl" and s' = "snd fl"] show ?thesis
        by (cases fl) auto
    next
      case (Inr p)
      obtain L s1 where p: "p = (L, s1)" by (cases p)
      with Inr have l: "eval_expr l s = Inr (L, s1)" by simp
      with Node.IH(1)[where s = s and v = L and s' = s1] have f1: "frame s s1" by simp
      show ?thesis
      proof (cases "eval_expr r s1")
        case (Inl fr)
        with Node.IH(2)[where s = s1 and f = "fst fr" and s' = "snd fr"]
        have "frame s1 (snd fr)" by (cases fr) auto
        with f1 have "frame s (snd fr)" by (rule frame_trans)
        with N_OP l Inl show ?thesis by (cases fr) auto
      next
        case (Inr q)
        obtain R s2 where q: "q = (R, s2)" by (cases q)
        with Inr have r: "eval_expr r s1 = Inr (R, s2)" by simp
        with Node.IH(2)[where s = s1 and v = R and s' = s2] have "frame s1 s2" by simp
        with f1 have f2: "frame s s2" by (rule frame_trans)
        then have f3: "frame s (yyerror m s2)" for m
          using frame_yyerror by (rule frame_trans)
        from eval_op_cases[OF l r, of lbl iv vid] f2 f3 show ?thesis
          unfolding N_OP by (elim disjE exE) (auto simp del: eval_expr.simps)
      qed
    qed
  qed (auto simp: frame_refl frame_yyerror split: if_splits)
qed

lemma eval_expr_frame:
  "eval_expr n s = Inr (v, s') \<Longrightarrow>
     sym_tab s' = sym_tab s \<and> yyout s' = yyout s \<and> yytree s' = yytree s \<and> yylineno s' = yylineno s
     \<and> (\<exists>errs. yyError s' = yyError s @ errs)"
  using eval_expr_frame_any[of n s v s'] by (simp add: frame_def)

lemma eval_expr_fault_frame:
  "eval_expr n s = Inl (f, s') \<Longrightarrow>
     sym_tab s' = sym_tab s \<and> yyout s' = yyout s \<and> yytree s' = yytree s \<and> yylineno s' = yylineno s
     \<and> (\<exists>errs. yyError s' = yyError s @ errs)"
  using eval_expr_frame_any[of n s _ s' f] by (simp add: frame_def)

lemma eval_expr_tree_update:
  "eval_expr n (s\<lparr>yytree := t\<rparr>) = on_value (\<lambda>s'. s'\<lparr>yytree := t\<rparr>) (eval_expr n s)"
proof (induction n arbitrary: s)
  case Null
  show ?case by (simp add: on_value_def)
next
  case (Node lbl l r k iv vid)
  show ?case
  proof (cases k)
    case N_OP
    show ?thesis
    proof (cases "eval_expr l s")
      case (Inl fl)
      with N_OP Node.IH(1)[of s] show ?thesis by (simp add: on_value_def)
    next
      case (Inr p)
      obtain L s1 where p: "p = (L, s1)" by (cases p)
      from Inr p Node.IH(1)[of s]
      have l': "eval_expr l (s\<lparr>yytree := t\<rparr>) = Inr (L, s1\<lparr>yytree := t\<rparr>)"
        by (simp add: on_value_def)
      show ?thesis
      proof (cases "eval_expr r s1")
        case (Inl fr)
        with N_OP Inr p l' Node.IH(2)[of s1] show ?thesis by (simp add: on_value_def)
      next
        case r: (Inr q)
        obtain R s2 where q: "q = (R, s2)" by (cases q)
        from r q Node.IH(2)[of s1]
        have r': "eval_expr r (s1\<lparr>yytree := t\<rparr>) = Inr (R, s2\<lparr>yytree := t\<rparr>)"
          by (simp add: on_value_def)
        from N_OP Inr p r q l' r' show ?thesis
          by (simp add: on_value_def yyerror_def split: option.splits)
      qed
    qed
  qed (simp_all add: yyerror_def on_value_def)
qed

text \<open>The tree of a statement list executes as the list of its statements.\<close>

lemma exec_seq_append:
  "exec_in_order (xs @ [x]) s =
     (case exec_in_order xs s of Inl f \<Rightarrow> Inl f | Inr s1 \<Rightarrow> execute_stmt x s1)"
  by (induction xs arbitrary: s) (auto split: sum.splits)

lemma execute_list_stmtlist:
  "execute_list (Node lbl l r N_STMTLIST iv vid) s =
     (case execute_list l s of Inl f \<Rightarrow> Inl f | Inr s1 \<Rightarrow> execute_stmt r s1)"
  by (simp add: execute_list.simps)

lemma execute_list_stmts_of: "execute_list (stmts_of xs) s = exec_in_order xs s"
proof (induction xs arbitrary: s rule: rev_induct)
  case Nil
  show ?case by (simp add: stmts_of_def stmts_empty_def execute_list.simps)
next
  case (snoc x xs)
  have "stmts_of (xs @ [x]) = Node ''stmtlist'' (stmts_of xs) x N_STMTLIST 0 (- 1)"
    by (simp add: stmts_of_def stmts_append_def new_stmtlist_node_def new_node_kind_def)
  then show ?case
    by (simp add: execute_list_stmtlist exec_seq_append snoc.IH)
qed

text \<open>
  Execution never reads the trace file: running from a state with more pieces in front
  gives the same result with those pieces in front.
\<close>

lemma eval_expr_prepend:
  "eval_expr n (prepend_trace p s) = on_value (prepend_trace p) (eval_expr n s)"
proof (cases "eval_expr n s")
  case (Inl fs)
  obtain f s' where fs: "fs = (f, s')" by (cases fs)
  with Inl eval_expr_fault_frame[of n s f s'] have "yytree s' = yytree s" by simp
  with Inl fs show ?thesis
    by (simp add: prepend_trace_def eval_expr_tree_update on_value_def)
next
  case (Inr vs)
  obtain v s' where vs: "vs = (v, s')" by (cases vs)
  with Inr eval_expr_frame[of n s v s'] have "yytree s' = yytree s" by simp
  with Inr vs show ?thesis
    by (simp add: prepend_trace_def eval_expr_tree_update on_value_def)
qed

lemma print_tree_header_prepend:
  "print_tree_header n (prepend_trace p s) = prepend_trace p (print_tree_header n s)"
  by (simp add: print_tree_header_def prepend_trace_def)

lemma yyerror_prepend: "yyerror m (prepend_trace p s) = prepend_trace p (yyerror m s)"
  by (simp add: yyerror_def prepend_trace_def)

lemma store_var_prepend:
  "store_var verb ident val (prepend_trace p s) =
     on_state (prepend_trace p) (store_var verb ident val s)"
  by (simp add: store_var_def prepend_trace_def on_state_def)

lemma print_prepend:
  "(prepend_trace p s)\<lparr>yyout := yyout (prepend_trace p s) @ [x]\<rparr> =
     prepend_trace p (s\<lparr>yyout := yyout s @ [x]\<rparr>)"
  by (simp add: prepend_trace_def)

lemmas prepend_simps =
  print_tree_header_prepend yyerror_prepend store_var_prepend print_prepend

lemma execute_prepend:
  "execute_stmt n (prepend_trace p s) = on_state (prepend_trace p) (execute_stmt n s)"
  "execute_list m (prepend_trace p s) = on_state (prepend_trace p) (execute_list m s)"
proof (induction n s and m s rule: execute_stmt_execute_list.induct)
  case (1 s)
  show ?case by (simp add: execute_stmt.simps on_state_def)
next
  case (2 lbl l r k iv vid s)
  let ?n = "Node lbl l r k iv vid"
  let ?s0 = "print_tree_header ?n s"
  have el: "eval_expr l (prepend_trace p ?s0) = on_value (prepend_trace p) (eval_expr l ?s0)"
    and er: "eval_expr r (prepend_trace p ?s0) = on_value (prepend_trace p) (eval_expr r ?s0)"
    by (rule eval_expr_prepend)+
  show ?case
  proof (cases k)
    case N_DECL
    show ?thesis
    proof (cases "eval_expr r ?s0")
      case (Inl f)
      with N_DECL er show ?thesis
        by (simp add: execute_stmt.simps prepend_simps on_value_def on_state_def)
    next
      case (Inr vs)
      with N_DECL er show ?thesis
        by (cases vs; cases l)
           (simp_all add: execute_stmt.simps prepend_simps on_value_def, simp_all add: on_state_def)
    qed
  next
    case N_ASSIGN
    show ?thesis
    proof (cases "eval_expr r ?s0")
      case (Inl f)
      with N_ASSIGN er show ?thesis
        by (simp add: execute_stmt.simps prepend_simps on_value_def on_state_def)
    next
      case (Inr vs)
      with N_ASSIGN er show ?thesis
        by (cases vs; cases l)
           (simp_all add: execute_stmt.simps prepend_simps on_value_def, simp_all add: on_state_def)
    qed
  next
    case N_PRINT
    show ?thesis
    proof (cases "eval_expr l ?s0")
      case (Inl f)
      with N_PRINT el show ?thesis
        by (simp add: execute_stmt.simps prepend_simps on_value_def on_state_def)
    next
      case (Inr vs)
      with N_PRINT el show ?thesis
        by (cases vs)
           (simp add: execute_stmt.simps prepend_simps on_value_def on_state_def)
    qed
  next
    case N_IF
    show ?thesis
    proof (cases "eval_expr l ?s0")
      case (Inl f)
      with N_IF el show ?thesis
        by (simp add: execute_stmt.simps prepend_simps on_value_def on_state_def)
    next
      case (Inr vs)
      obtain c s1 where vs: "vs = (c, s1)" by (cases vs)
      with Inr have ev: "eval_expr l ?s0 = Inr (c, s1)" by simp
      with el have ev': "eval_expr l (prepend_trace p ?s0) = Inr (c, prepend_trace p s1)"
        by (simp add: on_value_def)
      show ?thesis
      proof (cases r)
        case Null
        with N_IF ev ev' show ?thesis
          by (simp add: execute_stmt.simps prepend_simps on_state_def)
      next
        case (Node blbl t e bk biv bvid)
        show ?thesis
        proof (cases "bk = N_BRANCHES")
          case False
          with N_IF Node ev ev' show ?thesis
            by (simp add: execute_stmt.simps prepend_simps on_state_def)
        next
          case True
          show ?thesis
          proof (cases "c = 0")
            case False
            from "2.IH"(1)[OF refl N_IF ev refl Node True False]
            show ?thesis using N_IF Node True False ev ev'
              by (simp add: execute_stmt.simps prepend_simps)
          next
            case c0: True
            then have "\<not> c \<noteq> 0" by simp
            from "2.IH"(2)[OF refl N_IF ev refl Node True this]
            show ?thesis using N_IF Node True c0 ev ev'
              by (simp add: execute_stmt.simps prepend_simps)
          qed
        qed
      qed
    qed
  next
    case N_STMTLIST
    from "2.IH"(3)[OF refl N_STMTLIST]
    show ?thesis using N_STMTLIST by (simp add: execute_stmt.simps prepend_simps)
  qed (simp_all add: execute_stmt.simps prepend_simps on_state_def)
next
  case (3 s)
  show ?case by (simp add: execute_list.simps on_state_def)
next
  case (4 lbl l r k iv vid s)
  show ?case
  proof (cases "k = N_STMTLIST")
    case False
    with "4.IH"(3) show ?thesis by (simp add: execute_list.simps)
  next
    case True
    show ?thesis
    proof (cases "execute_list l s")
      case (Inl f)
      with True "4.IH"(1) show ?thesis by (simp add: execute_list.simps on_state_def)
    next
      case (Inr s1)
      with True "4.IH"(1) "4.IH"(2)[OF True Inr] show ?thesis
        by (simp add: execute_list.simps on_state_def)
    qed
  qed
qed

lemma prepend_erase: "prepend_trace (yytree s) (erase_trace s) = s"
  by (simp add: prepend_trace_def erase_trace_def)

lemma execute_stmt_from_erased:
  "execute_stmt n s = on_state (prepend_trace (yytree s)) (execute_stmt n (erase_trace s))"
  using execute_prepend(1)[of n "yytree s" "erase_trace s"] by (simp add: prepend_erase)

lemma execute_list_from_erased:
  "execute_list n s = on_state (prepend_trace (yytree s)) (execute_list n (erase_trace s))"
  using execute_prepend(2)[of n "yytree s" "erase_trace s"] by (simp add: prepend_erase)

lemma erase_prepend: "erase_trace (prepend_trace p s) = erase_trace s"
  by (simp add: prepend_trace_def erase_trace_def)

lemma outcome_on_prepend: "outcome (on_state (prepend_trace p) res) = outcome res"
  by (cases res) (auto simp: outcome_def on_state_def erase_prepend)

lemma outcome_execute_stmt:
  assumes "erase_trace a = erase_trace b"
  shows "outcome (execute_stmt n a) = outcome (execute_stmt n b)"
proof -
  have "outcome (execute_stmt n x) = outcome (execute_stmt n (erase_trace x))" for x
    by (subst execute_stmt_from_erased) (rule outcome_on_prepend)
  from this[of a] this[of b] assms show ?thesis by simp
qed

lemma outcome_execute_list:
  assumes "erase_trace a = erase_trace b"
  shows "outcome (execute_list n a) = outcome (execute_list n b)"
proof -
  have "outcome (execute_list n x) = outcome (execute_list n (erase_trace x))" for x
    by (subst execute_list_from_erased) (rule outcome_on_prepend)
  from this[of a] this[of b] assms show ?thesis by simp
qed

text \<open>The cases of \<^verbatim>\<open>execute_stmt\<close>, once the expression of the statement is evaluated.\<close>

lemma eval_expr_state:
  assumes "eval_expr n s = Inr (v, s')"
  shows "s' = s\<lparr>yyError := yyError s'\<rparr>"
  using eval_expr_frame[OF assms] by (cases s; cases s') simp

lemma eval_expr_after_header:
  assumes "eval_expr n s = Inr (v, s1)"
  shows "eval_expr n (print_tree_header (Node lbl l r k iv vid) s)
           = Inr (v, s1\<lparr>yytree := yytree s @ [tree_block (Node lbl l r k iv vid)]\<rparr>)"
  using assms by (simp add: print_tree_header_def eval_expr_tree_update on_value_def)

lemma execute_if_unfold:
  assumes "eval_expr cond s = Inr (c, s1)"
  shows "execute_stmt (Node lbl cond (Node blbl t e N_BRANCHES biv bvid) N_IF iv vid) s =
     (if c \<noteq> 0
      then execute_list t (s1\<lparr>yytree := yytree s @
             [tree_block (Node lbl cond (Node blbl t e N_BRANCHES biv bvid) N_IF iv vid)]\<rparr>)
      else execute_list e (s1\<lparr>yytree := yytree s @
             [tree_block (Node lbl cond (Node blbl t e N_BRANCHES biv bvid) N_IF iv vid)]\<rparr>))"
  by (simp add: execute_stmt.simps eval_expr_after_header[OF assms])

lemma execute_print_unfold:
  assumes "eval_expr e s = Inr (val, s1)"
  shows "execute_stmt (Node lbl e r N_PRINT iv vid) s =
     Inr (s\<lparr>yyout := yyout s @ [''Print: '' @ show_d val @ ''\<newline>''],
            yytree := yytree s @ [tree_block (Node lbl e r N_PRINT iv vid)],
            yyError := yyError s1\<rparr>)"
proof -
  let ?t = "yytree s @ [tree_block (Node lbl e r N_PRINT iv vid)]"
  let ?o = "[''Print: '' @ show_d val @ ''\<newline>'']"
  have "execute_stmt (Node lbl e r N_PRINT iv vid) s
          = Inr (s1\<lparr>yytree := ?t, yyout := yyout s1 @ ?o\<rparr>)"
    by (simp add: execute_stmt.simps eval_expr_after_header[OF assms])
  moreover have "s1\<lparr>yytree := ?t, yyout := yyout s1 @ ?o\<rparr>
          = s\<lparr>yyout := yyout s @ ?o, yytree := ?t, yyError := yyError s1\<rparr>"
    using eval_expr_frame[OF assms] by (cases s; cases s1) simp
  ultimately show ?thesis by simp
qed

lemma execute_store_unfold:
  assumes ev: "eval_expr e s = Inr (val, s1)"
    and rng: "in_sym_range ident"
    and k: "k = N_DECL \<and> verb = ''Declared'' \<or> k = N_ASSIGN \<and> verb = ''Assigned''"
  shows "execute_stmt (Node lbl (Node vlbl vl vr N_VAR viv ident) e k iv vid) s =
     Inr (s\<lparr>sym_tab := (sym_tab s)[nat (sint ident) := val],
            yyout := yyout s @ [verb @ '' var['' @ show_d ident @ ''] = '' @ show_d val @ ''\<newline>''],
            yytree := yytree s @ [tree_block (Node lbl (Node vlbl vl vr N_VAR viv ident) e k iv vid)],
            yyError := yyError s1\<rparr>)"
proof -
  let ?n = "Node lbl (Node vlbl vl vr N_VAR viv ident) e k iv vid"
  let ?t = "yytree s @ [tree_block ?n]"
  let ?o = "[verb @ '' var['' @ show_d ident @ ''] = '' @ show_d val @ ''\<newline>'']"
  have "execute_stmt ?n s
          = Inr (s1\<lparr>yytree := ?t, sym_tab := (sym_tab s1)[nat (sint ident) := val],
                   yyout := yyout s1 @ ?o\<rparr>)"
    using k rng by (auto simp: execute_stmt.simps eval_expr_after_header[OF ev] store_var_def)
  moreover have "s1\<lparr>yytree := ?t, sym_tab := (sym_tab s1)[nat (sint ident) := val],
                   yyout := yyout s1 @ ?o\<rparr>
          = s\<lparr>sym_tab := (sym_tab s)[nat (sint ident) := val], yyout := yyout s @ ?o,
               yytree := ?t, yyError := yyError s1\<rparr>"
    using eval_expr_frame[OF ev] by (cases s; cases s1) simp
  ultimately show ?thesis by simp
qed

lemma execute_malformed_unfold:
  assumes ev: "eval_expr e s = Inr (val, s1)"
    and vk: "vk \<noteq> N_VAR"
    and k: "k = N_DECL \<and> what = ''Declaration'' \<or> k = N_ASSIGN \<and> what = ''Assignment''"
  shows "execute_stmt (Node lbl (Node vlbl vl vr vk viv ident) e k iv vid) s =
     Inr (s\<lparr>yytree := yytree s @ [tree_block (Node lbl (Node vlbl vl vr vk viv ident) e k iv vid)],
            yyError := yyError s1 @
              [''Error: '' @ what @ '' left side is not a variable at line ''
                 @ show_d (yylineno s) @ ''\<newline>'']\<rparr>)"
proof -
  let ?n = "Node lbl (Node vlbl vl vr vk viv ident) e k iv vid"
  let ?t = "yytree s @ [tree_block ?n]"
  let ?e = "[''Error: '' @ what @ '' left side is not a variable at line ''
                 @ show_d (yylineno s) @ ''\<newline>'']"
  from eval_expr_frame[OF ev] have ln: "yylineno s1 = yylineno s" by simp
  have "execute_stmt ?n s = Inr (s1\<lparr>yytree := ?t, yyError := yyError s1 @ ?e\<rparr>)"
    using k vk by (auto simp: execute_stmt.simps eval_expr_after_header[OF ev] yyerror_def ln)
  moreover have "s1\<lparr>yytree := ?t, yyError := yyError s1 @ ?e\<rparr>
          = s\<lparr>yytree := ?t, yyError := yyError s1 @ ?e\<rparr>"
    using eval_expr_frame[OF ev] by (cases s; cases s1) simp
  ultimately show ?thesis by simp
qed

text \<open>The signed reading of the 32-bit operations when the exact result fits.\<close>

lemma sint_bounds32: "- (2 ^ 31) \<le> sint (w :: int32) \<and> sint w < 2 ^ 31"
  using sint_range_size[of w] by (simp add: word_size)

lemma abs_div_le: "\<bar>k\<bar> div \<bar>l\<bar> \<le> \<bar>k :: int\<bar>"
  using int_div_le_self by force

lemma abs_div_eq: "l \<noteq> 0 \<Longrightarrow> \<bar>k\<bar> div \<bar>l\<bar> = \<bar>k :: int\<bar> \<Longrightarrow> k = 0 \<or> \<bar>l\<bar> = 1"
  by (metis antisym_conv3 dual_order.irrefl int_div_less_self
    zabs_less_one_iff zero_less_abs_iff)

lemma sdiv_range:
  assumes "- (2 ^ 31) \<le> k" "k < 2 ^ 31" "l \<noteq> 0" "\<not> (k = - (2 ^ 31) \<and> l = - 1)"
  shows "- (2 ^ 31) \<le> k sdiv l \<and> k sdiv l < (2 ^ 31 :: int)"
proof -
  have a: "\<bar>k\<bar> div \<bar>l\<bar> \<le> \<bar>k\<bar>" by (rule abs_div_le)
  have b: "\<bar>k\<bar> \<le> 2 ^ 31" using assms by simp
  have s: "sgn k * sgn l \<in> {-1, 0, 1}" by (auto simp: sgn_if)
  have nn: "0 \<le> \<bar>k\<bar> div \<bar>l\<bar>" using assms(3) by (simp add: pos_imp_zdiv_nonneg_iff)
  show ?thesis
  proof (cases "\<bar>k\<bar> div \<bar>l\<bar> = 2 ^ 31")
    case False
    with a b have "\<bar>k\<bar> div \<bar>l\<bar> < 2 ^ 31" by simp
    with nn show ?thesis using s by (auto simp: signed_divide_int_def)
  next
    case True
    with a b have k: "\<bar>k\<bar> = 2 ^ 31" by simp
    with assms have k': "k = - (2 ^ 31)" by simp
    from k have "k \<noteq> 0" by auto
    moreover from True k have "\<bar>k\<bar> div \<bar>l\<bar> = \<bar>k\<bar>" by simp
    ultimately have "\<bar>l\<bar> = 1" using abs_div_eq[OF assms(3), of k] by blast
    with assms k' have "l = 1" by simp
    with k' show ?thesis by (simp add: signed_divide_int_def)
  qed
qed

lemma sint_of_int32:
  "- (2 ^ 31) \<le> k \<Longrightarrow> k < 2 ^ 31 \<Longrightarrow> sint (word_of_int k :: int32) = k"
  by (simp add: sint_sbintrunc' signed_take_bit_int_eq_self)

lemma sint_add32: "- (2 ^ 31) \<le> sint a + sint b \<Longrightarrow> sint a + sint b < 2 ^ 31 \<Longrightarrow> sint (a + b :: int32) = sint a + sint b"
  by (simp add: sint_word_ariths signed_take_bit_int_eq_self)
lemma sint_sub32: "- (2 ^ 31) \<le> sint a - sint b \<Longrightarrow> sint a - sint b < 2 ^ 31 \<Longrightarrow> sint (a - b :: int32) = sint a - sint b"
  by (simp add: sint_word_ariths signed_take_bit_int_eq_self)
lemma sint_mul32: "- (2 ^ 31) \<le> sint a * sint b \<Longrightarrow> sint a * sint b < 2 ^ 31 \<Longrightarrow> sint (a * b :: int32) = sint a * sint b"
  by (simp add: sint_word_ariths signed_take_bit_int_eq_self)

lemma c_div_Some:
  "c_div a b = Some q \<longleftrightarrow>
     b \<noteq> 0 \<and> \<not> (sint a = - (2 ^ 31) \<and> sint b = - 1) \<and> q = word_of_int (sint a sdiv sint b)"
  by (auto simp: c_div_def)

lemma c_div_None: "c_div a b = None \<longleftrightarrow> b = 0 \<or> (sint a = - (2 ^ 31) \<and> sint b = - 1)"
  by (simp add: c_div_def)

lemma sint_c_div:
  assumes "c_div a b = Some q"
  shows "sint q = sint a sdiv sint b"
proof -
  from assms have b: "b \<noteq> 0" and x: "\<not> (sint a = - (2 ^ 31) \<and> sint b = - 1)"
    and q: "q = word_of_int (sint a sdiv sint b)"
    by (simp_all add: c_div_Some)
  from b have "sint b \<noteq> 0" by (simp add: signed_eq_0_iff)
  with sdiv_range[of "sint a" "sint b"] sint_bounds32[of a] x
  show ?thesis by (simp add: q sint_of_int32)
qed

text \<open>The ten operators, once both operands are evaluated.\<close>

lemma eval_op_unfold:
  assumes l: "eval_expr l s = Inr (L, s1)" and r: "eval_expr r s1 = Inr (R, s2)"
  shows "eval_expr (Node ''+'' l r N_OP iv vid) s = Inr (L + R, s2)"
    "eval_expr (Node ''-'' l r N_OP iv vid) s = Inr (L - R, s2)"
    "eval_expr (Node ''*'' l r N_OP iv vid) s = Inr (L * R, s2)"
    "eval_expr (Node ''/'' l r N_OP iv vid) s =
       (if R = 0 then Inr (0, yyerror ''Division by zero'' s2)
        else (case c_div L R of None \<Rightarrow> Inl (DivisionOverflow, s2) | Some q \<Rightarrow> Inr (q, s2)))"
    "eval_expr (Node ''=='' l r N_OP iv vid) s = Inr (c_bool (L = R), s2)"
    "eval_expr (Node ''!='' l r N_OP iv vid) s = Inr (c_bool (L \<noteq> R), s2)"
    "eval_expr (Node ''<='' l r N_OP iv vid) s = Inr (c_bool (L \<le>s R), s2)"
    "eval_expr (Node ''>='' l r N_OP iv vid) s = Inr (c_bool (R \<le>s L), s2)"
    "eval_expr (Node ''<'' l r N_OP iv vid) s = Inr (c_bool (L <s R), s2)"
    "eval_expr (Node ''>'' l r N_OP iv vid) s = Inr (c_bool (R <s L), s2)"
  by (simp_all add: l r)

text \<open>Execution writes only the slots of ids that a declaration or assignment names.\<close>

lemma keeps_refl: "keeps_unassigned ids tab tab"
  by (simp add: keeps_unassigned_def)

lemma keeps_trans:
  "keeps_unassigned ids a b \<Longrightarrow> keeps_unassigned ids b c \<Longrightarrow> keeps_unassigned ids a c"
  by (simp add: keeps_unassigned_def)

lemma keeps_mono:
  "keeps_unassigned ids a b \<Longrightarrow> ids \<subseteq> ids' \<Longrightarrow> keeps_unassigned ids' a b"
  by (auto simp: keeps_unassigned_def)

lemma sym_index_inj:
  assumes "in_sym_range a" "in_sym_range b" "nat (sint a) = nat (sint b)"
  shows "a = b"
proof -
  from assms have "sint a = sint b" by (auto simp: in_sym_range_def)
  then show ?thesis by (simp add: signed_word_eqI)
qed

lemma keeps_store_var:
  assumes "store_var verb ident val s = Inr s'"
  shows "keeps_unassigned {ident} (sym_tab s) (sym_tab s')"
proof -
  from assms have rng: "in_sym_range ident"
    and s': "sym_tab s' = (sym_tab s)[nat (sint ident) := val]"
    by (auto simp: store_var_def split: if_splits)
  have "(sym_tab s)[nat (sint ident) := val] ! nat (sint a) = sym_tab s ! nat (sint a)"
    if "in_sym_range a" "a \<noteq> ident" for a
  proof -
    from that sym_index_inj[OF that(1) rng] have "nat (sint ident) \<noteq> nat (sint a)" by metis
    then show ?thesis by simp
  qed
  then show ?thesis
    unfolding keeps_unassigned_def s' by simp
qed

lemma execute_keeps_unassigned:
  "\<forall>s'. execute_stmt n s = Inr s' \<longrightarrow> keeps_unassigned (assigned_ids n) (sym_tab s) (sym_tab s')"
  "\<forall>s'. execute_list m s = Inr s' \<longrightarrow> keeps_unassigned (assigned_ids m) (sym_tab s) (sym_tab s')"
proof (induction n s and m s rule: execute_stmt_execute_list.induct)
  case (1 s)
  show ?case by (simp add: execute_stmt.simps keeps_refl)
next
  case (2 lbl l r k iv vid s)
  let ?n = "Node lbl l r k iv vid"
  let ?s0 = "print_tree_header ?n s"
  have s0: "sym_tab ?s0 = sym_tab s" by (simp add: print_tree_header_def)
  show ?case
  proof (intro allI impI)
    fix s' assume run: "execute_stmt ?n s = Inr s'"
    show "keeps_unassigned (assigned_ids ?n) (sym_tab s) (sym_tab s')"
    proof (cases k)
      case N_DECL
      from run N_DECL obtain val s1 where ev: "eval_expr r ?s0 = Inr (val, s1)"
        by (cases "eval_expr r ?s0") (auto simp: execute_stmt.simps)
      from eval_expr_frame[OF ev] s0 have s1: "sym_tab s1 = sym_tab s" by simp
      from run N_DECL ev obtain vlbl vl vr vk viv ident
        where l: "l = Node vlbl vl vr vk viv ident"
        by (cases l) (auto simp: execute_stmt.simps)
      show ?thesis
      proof (cases "vk = N_VAR")
        case True
        with run N_DECL ev l have "store_var ''Declared'' ident val s1 = Inr s'"
          by (simp add: execute_stmt.simps)
        from keeps_store_var[OF this] show ?thesis
          using N_DECL l True s1 by (auto elim: keeps_mono)
      next
        case False
        with run N_DECL ev l have "s' = yyerror ''Declaration left side is not a variable'' s1"
          by (simp add: execute_stmt.simps)
        with s1 show ?thesis by (simp add: yyerror_def keeps_refl)
      qed
    next
      case N_ASSIGN
      from run N_ASSIGN obtain val s1 where ev: "eval_expr r ?s0 = Inr (val, s1)"
        by (cases "eval_expr r ?s0") (auto simp: execute_stmt.simps)
      from eval_expr_frame[OF ev] s0 have s1: "sym_tab s1 = sym_tab s" by simp
      from run N_ASSIGN ev obtain vlbl vl vr vk viv ident
        where l: "l = Node vlbl vl vr vk viv ident"
        by (cases l) (auto simp: execute_stmt.simps)
      show ?thesis
      proof (cases "vk = N_VAR")
        case True
        with run N_ASSIGN ev l have "store_var ''Assigned'' ident val s1 = Inr s'"
          by (simp add: execute_stmt.simps)
        from keeps_store_var[OF this] show ?thesis
          using N_ASSIGN l True s1 by (auto elim: keeps_mono)
      next
        case False
        with run N_ASSIGN ev l have "s' = yyerror ''Assignment left side is not a variable'' s1"
          by (simp add: execute_stmt.simps)
        with s1 show ?thesis by (simp add: yyerror_def keeps_refl)
      qed
    next
      case N_PRINT
      from run N_PRINT obtain val s1 where ev: "eval_expr l ?s0 = Inr (val, s1)"
        by (cases "eval_expr l ?s0") (auto simp: execute_stmt.simps)
      from eval_expr_frame[OF ev] s0 have s1: "sym_tab s1 = sym_tab s" by simp
      from run N_PRINT ev s1 show ?thesis
        by (auto simp: execute_stmt.simps keeps_refl)
    next
      case N_IF
      from run N_IF obtain c s1 where ev: "eval_expr l ?s0 = Inr (c, s1)"
        by (cases "eval_expr l ?s0") (auto simp: execute_stmt.simps)
      from eval_expr_frame[OF ev] s0 have s1: "sym_tab s1 = sym_tab s" by simp
      show ?thesis
      proof (cases r)
        case Null
        with run N_IF ev s1 show ?thesis
          by (auto simp: execute_stmt.simps yyerror_def keeps_refl)
      next
        case (Node blbl t e bk biv bvid)
        show ?thesis
        proof (cases "bk = N_BRANCHES")
          case False
          with run N_IF ev s1 Node show ?thesis
            by (auto simp: execute_stmt.simps yyerror_def keeps_refl)
        next
          case True
          show ?thesis
          proof (cases "c = 0")
            case False
            with run N_IF ev Node True have "execute_list t s1 = Inr s'"
              by (simp add: execute_stmt.simps)
            with "2.IH"(1)[OF refl N_IF ev refl Node True False]
            have "keeps_unassigned (assigned_ids t) (sym_tab s1) (sym_tab s')" by blast
            then show ?thesis using s1 Node N_IF by (auto elim: keeps_mono)
          next
            case c0: True
            then have nc: "\<not> c \<noteq> 0" by simp
            from c0 run N_IF ev Node True have "execute_list e s1 = Inr s'"
              by (simp add: execute_stmt.simps)
            with "2.IH"(2)[OF refl N_IF ev refl Node True nc]
            have "keeps_unassigned (assigned_ids e) (sym_tab s1) (sym_tab s')" by blast
            then show ?thesis using s1 Node N_IF by (auto elim: keeps_mono)
          qed
        qed
      qed
    next
      case N_STMTLIST
      with run have "execute_list ?n ?s0 = Inr s'" by (simp add: execute_stmt.simps)
      with "2.IH"(3)[OF refl N_STMTLIST] s0 show ?thesis by auto
    qed (use run in \<open>auto simp: execute_stmt.simps yyerror_def print_tree_header_def keeps_refl\<close>)
  qed
next
  case (3 s)
  show ?case by (simp add: execute_list.simps keeps_refl)
next
  case (4 lbl l r k iv vid s)
  let ?n = "Node lbl l r k iv vid"
  show ?case
  proof (intro allI impI)
    fix s' assume run: "execute_list ?n s = Inr s'"
    show "keeps_unassigned (assigned_ids ?n) (sym_tab s) (sym_tab s')"
    proof (cases "k = N_STMTLIST")
      case False
      with run "4.IH"(3) show ?thesis by (simp add: execute_list.simps)
    next
      case True
      with run obtain s1 where a: "execute_list l s = Inr s1" and b: "execute_stmt r s1 = Inr s'"
        by (auto simp: execute_list.simps split: sum.splits)
      from "4.IH"(1)[OF True] a have "keeps_unassigned (assigned_ids l) (sym_tab s) (sym_tab s1)"
        by blast
      then have 1: "keeps_unassigned (assigned_ids ?n) (sym_tab s) (sym_tab s1)"
        by (rule keeps_mono) auto
      from "4.IH"(2)[OF True a] b have "keeps_unassigned (assigned_ids r) (sym_tab s1) (sym_tab s')"
        by blast
      then have 2: "keeps_unassigned (assigned_ids ?n) (sym_tab s1) (sym_tab s')"
        by (rule keeps_mono) auto
      from 1 2 show ?thesis by (rule keeps_trans)
    qed
  qed
qed

text \<open>What a statement adds to the trace file.\<close>

lemma reached_on_state: "reached (on_state f res) = f (reached res)"
  by (cases res) (auto simp: reached_def on_state_def)

lemma reached_list_trace:
  "yytree (reached (execute_list n s)) = yytree s @ yytree (reached (execute_list n (erase_trace s)))"
  by (subst execute_list_from_erased) (simp add: reached_on_state prepend_trace_def)

lemma reached_stmt_trace:
  "yytree (reached (execute_stmt n s)) = yytree s @ yytree (reached (execute_stmt n (erase_trace s)))"
  by (subst execute_stmt_from_erased) (simp add: reached_on_state prepend_trace_def)

lemma execute_list_trace:
  assumes "execute_list n s = Inr s'"
  shows "\<exists>s2. execute_list n (erase_trace s) = Inr s2 \<and> yytree s' = yytree s @ yytree s2"
proof -
  from assms execute_list_from_erased[of n s]
  obtain s2 where "execute_list n (erase_trace s) = Inr s2" "s' = prepend_trace (yytree s) s2"
    by (cases "execute_list n (erase_trace s)") (auto simp: on_state_def)
  then show ?thesis by (auto simp: prepend_trace_def)
qed

lemma eval_reached_trace:
  "(eval_expr n s = Inr (v, s') \<or> eval_expr n s = Inl (f, s')) \<Longrightarrow> yytree s' = yytree s"
  using eval_expr_frame[of n s v s'] eval_expr_fault_frame[of n s f s'] by auto

lemma execute_plain_reached:
  assumes k: "k = N_DECL \<or> k = N_ASSIGN \<or> k = N_PRINT"
  shows "yytree (reached (execute_stmt (Node lbl l r k iv vid) s))
           = yytree s @ [tree_block (Node lbl l r k iv vid)]"
proof -
  let ?n = "Node lbl l r k iv vid"
  let ?s0 = "print_tree_header ?n s"
  let ?e = "if k = N_PRINT then l else r"
  have s0: "yytree ?s0 = yytree s @ [tree_block ?n]" by (simp add: print_tree_header_def)
  show ?thesis
  proof (cases "eval_expr ?e ?s0")
    case (Inl fs)
    obtain f sf where fs: "fs = (f, sf)" by (cases fs)
    with Inl eval_reached_trace[of ?e ?s0 _ sf f] s0 have "yytree sf = yytree s @ [tree_block ?n]"
      by simp
    with k Inl fs show ?thesis
      by (auto simp: execute_stmt.simps reached_def)
  next
    case (Inr vs)
    obtain v s1 where vs: "vs = (v, s1)" by (cases vs)
    with Inr eval_reached_trace[of ?e ?s0 v s1] s0 have "yytree s1 = yytree s @ [tree_block ?n]"
      by simp
    with k Inr vs show ?thesis
      by (auto simp: execute_stmt.simps reached_def store_var_def yyerror_def split: node.splits)
  qed
qed

lemma execute_plain_trace:
  assumes run: "execute_stmt (Node lbl l r k iv vid) s = Inr s'"
    and k: "k = N_DECL \<or> k = N_ASSIGN \<or> k = N_PRINT"
  shows "yytree s' = yytree s @ [tree_block (Node lbl l r k iv vid)]"
  using execute_plain_reached[OF k, of lbl l r iv vid s] run by (simp add: reached_def)

lemma execute_if_trace:
  assumes run: "execute_stmt (Node lbl l (Node blbl t e N_BRANCHES biv bvid) N_IF iv vid) s = Inr s'"
    and ev: "eval_expr l s = Inr (c, s1)"
  shows "\<exists>s2. execute_list (if c \<noteq> 0 then t else e) (erase_trace s1) = Inr s2
           \<and> yytree s' = yytree s @
                tree_block (Node lbl l (Node blbl t e N_BRANCHES biv bvid) N_IF iv vid) # yytree s2"
proof -
  let ?n = "Node lbl l (Node blbl t e N_BRANCHES biv bvid) N_IF iv vid"
  let ?s1 = "s1\<lparr>yytree := yytree s @ [tree_block ?n]\<rparr>"
  from run execute_if_unfold[OF ev, of lbl blbl t e biv bvid iv vid]
  have "execute_list (if c \<noteq> 0 then t else e) ?s1 = Inr s'"
    by (simp split: if_splits)
  from execute_list_trace[OF this]
  show ?thesis by (simp add: erase_trace_def)
qed

lemma execute_stmt_reached_first:
  "\<exists>rest. yytree (reached (execute_stmt (Node lbl l r k iv vid) s))
            = yytree s @ tree_block (Node lbl l r k iv vid) # rest"
proof -
  let ?n = "Node lbl l r k iv vid"
  let ?s0 = "print_tree_header ?n s"
  have s0: "yytree ?s0 = yytree s @ [tree_block ?n]" by (simp add: print_tree_header_def)
  show ?thesis
  proof (cases k)
    case N_IF
    show ?thesis
    proof (cases "eval_expr l ?s0")
      case (Inl fs)
      obtain f sf where fs: "fs = (f, sf)" by (cases fs)
      with Inl eval_reached_trace[of l ?s0 _ sf f] s0 have "yytree sf = yytree s @ [tree_block ?n]"
        by simp
      with N_IF Inl fs show ?thesis by (simp add: execute_stmt.simps reached_def)
    next
      case (Inr vs)
      obtain c s1 where vs: "vs = (c, s1)" by (cases vs)
      with Inr eval_reached_trace[of l ?s0 c s1] s0 have s1: "yytree s1 = yytree s @ [tree_block ?n]"
        by simp
      show ?thesis
      proof (cases "\<exists>blbl t e biv bvid. r = Node blbl t e N_BRANCHES biv bvid")
        case True
        then obtain blbl t e biv bvid where r: "r = Node blbl t e N_BRANCHES biv bvid" by blast
        from N_IF r Inr vs have "execute_stmt ?n s = execute_list (if c \<noteq> 0 then t else e) s1"
          by (simp add: execute_stmt.simps)
        with reached_list_trace[of "if c \<noteq> 0 then t else e" s1] s1 show ?thesis by simp
      next
        case False
        with N_IF Inr vs s1 show ?thesis
          by (cases r) (auto simp: execute_stmt.simps yyerror_def reached_def)
      qed
    qed
  next
    case N_STMTLIST
    then have "execute_stmt ?n s = execute_list ?n ?s0" by (simp add: execute_stmt.simps)
    with reached_list_trace[of ?n ?s0] s0 show ?thesis by simp
  next
    case N_DECL
    with execute_plain_reached[of k lbl l r iv vid s] show ?thesis by simp
  next
    case N_ASSIGN
    with execute_plain_reached[of k lbl l r iv vid s] show ?thesis by simp
  next
    case N_PRINT
    with execute_plain_reached[of k lbl l r iv vid s] show ?thesis by simp
  qed (use s0 in \<open>auto simp: execute_stmt.simps yyerror_def Let_def reached_def\<close>)
qed

lemma execute_plain_stops:
  assumes k: "k = N_DECL \<or> k = N_ASSIGN \<or> k = N_PRINT"
    and ev: "eval_expr (if k = N_PRINT then l else r) s = Inl (f, sf)"
  shows "execute_stmt (Node lbl l r k iv vid) s
           = Inl (f, sf\<lparr>yytree := yytree s @ [tree_block (Node lbl l r k iv vid)]\<rparr>)"
proof -
  let ?n = "Node lbl l r k iv vid"
  let ?e = "if k = N_PRINT then l else r"
  from ev have "eval_expr ?e (print_tree_header ?n s)
      = Inl (f, sf\<lparr>yytree := yytree s @ [tree_block ?n]\<rparr>)"
    by (simp add: print_tree_header_def eval_expr_tree_update on_value_def)
  with k show ?thesis by (auto simp: execute_stmt.simps)
qed

lemma tree_block_holds_branches:
  "sublist (printTreeVertical t 10) (tree_block (Node lbl l (Node blbl t e bk biv bvid) k iv vid))"
  "sublist (printTreeVertical e 10) (tree_block (Node lbl l (Node blbl t e bk biv bvid) k iv vid))"
proof -
  let ?blk = "tree_block (Node lbl l (Node blbl t e bk biv bvid) k iv vid)"
  have "?blk = (printTreeVertical e 10 @ ''\<newline>'' @ replicate 5 CHR '' '' @ blbl @ ''\<newline>'')
          @ printTreeVertical t 10
          @ (''\<newline>'' @ lbl @ ''\<newline>'' @ printTreeVertical l 5 @ separator)"
    by (simp add: tree_block_def)
  then show "sublist (printTreeVertical t 10) ?blk"
    by (simp only: sublist_appendI)
  have "?blk = [] @ printTreeVertical e 10
          @ (''\<newline>'' @ replicate 5 CHR '' '' @ blbl @ ''\<newline>'' @ printTreeVertical t 10
             @ ''\<newline>'' @ lbl @ ''\<newline>'' @ printTreeVertical l 5 @ separator)"
    by (simp add: tree_block_def)
  then show "sublist (printTreeVertical e 10) ?blk"
    by (simp only: sublist_appendI)
qed

lemma exec_in_order_plain_trace:
  "\<forall>x \<in> set xs. plain_stmt x \<Longrightarrow> exec_in_order xs s = Inr s' \<Longrightarrow>
     yytree s' = yytree s @ map tree_block xs"
proof (induction xs arbitrary: s)
  case Nil
  then show ?case by simp
next
  case (Cons x xs)
  from Cons.prems(1) obtain lbl l r k iv vid where x: "x = Node lbl l r k iv vid"
    and k: "k = N_DECL \<or> k = N_ASSIGN \<or> k = N_PRINT"
    by (cases x) (auto simp: plain_stmt_def)
  from Cons.prems(2) obtain s1 where a: "execute_stmt x s = Inr s1" and b: "exec_in_order xs s1 = Inr s'"
    by (auto split: sum.splits)
  from execute_plain_trace[OF a[unfolded x] k] have "yytree s1 = yytree s @ [tree_block x]"
    by (simp add: x)
  moreover from Cons.IH[OF _ b] Cons.prems(1) have "yytree s' = yytree s1 @ map tree_block xs"
    by simp
  ultimately show ?case by simp
qed

text \<open>
  An operator node evaluates its left operand and then its right operand, in the state
  the left one left behind, before it looks at its label: whatever the label and the
  two values \<open>L\<close> and \<open>R\<close>, the run is then in the state after both, with at most an error
  line of the node itself added. The labels \<^verbatim>\<open>+\<close>, \<^verbatim>\<open>-\<close> and \<^verbatim>\<open>*\<close> give the sum, the
  difference and the product as 32-bit values, which read as signed integers are the
  exact results whenever those fit. The label \<^verbatim>\<open>/\<close> with \<open>R\<close> not 0 gives the quotient
  truncated towards zero, except for the least integer divided by \<open>-1\<close>, where the run
  stops. Each of the six comparisons gives 1 when it holds of the signed values and 0
  otherwise.
\<close>

lemma binary_op_evaluation:
  assumes l: "eval_expr l s = Inr (L, s1)"
    and r: "eval_expr r s1 = Inr (R, s2)"
  shows
    "(\<exists>el er. yyError s1 = yyError s @ el \<and> yyError s2 = yyError s1 @ er)
     \<and> ((\<exists>v errs. eval_expr (Node lbl l r N_OP iv vid) s
                     = Inr (v, s2\<lparr>yyError := yyError s2 @ errs\<rparr>))
         \<or> eval_expr (Node lbl l r N_OP iv vid) s = Inl (DivisionOverflow, s2))
     \<and> eval_expr (Node ''+'' l r N_OP iv vid) s = Inr (L + R, s2)
     \<and> eval_expr (Node ''-'' l r N_OP iv vid) s = Inr (L - R, s2)
     \<and> eval_expr (Node ''*'' l r N_OP iv vid) s = Inr (L * R, s2)
     \<and> (R \<noteq> 0 \<and> \<not> (sint L = - (2 ^ 31) \<and> sint R = - 1) \<longrightarrow>
          eval_expr (Node ''/'' l r N_OP iv vid) s = Inr (word_of_int (sint L sdiv sint R), s2)
          \<and> sint (word_of_int (sint L sdiv sint R) :: int32) = sint L sdiv sint R)
     \<and> (sint L = - (2 ^ 31) \<and> sint R = - 1 \<longrightarrow>
          eval_expr (Node ''/'' l r N_OP iv vid) s = Inl (DivisionOverflow, s2))
     \<and> eval_expr (Node ''=='' l r N_OP iv vid) s = Inr (if L = R then 1 else 0, s2)
     \<and> eval_expr (Node ''!='' l r N_OP iv vid) s = Inr (if L \<noteq> R then 1 else 0, s2)
     \<and> eval_expr (Node ''<='' l r N_OP iv vid) s = Inr (if sint L \<le> sint R then 1 else 0, s2)
     \<and> eval_expr (Node ''>='' l r N_OP iv vid) s = Inr (if sint L \<ge> sint R then 1 else 0, s2)
     \<and> eval_expr (Node ''<'' l r N_OP iv vid) s = Inr (if sint L < sint R then 1 else 0, s2)
     \<and> eval_expr (Node ''>'' l r N_OP iv vid) s = Inr (if sint L > sint R then 1 else 0, s2)
     \<and> (- (2 ^ 31) \<le> sint L + sint R \<and> sint L + sint R < 2 ^ 31 \<longrightarrow>
          sint (L + R) = sint L + sint R)
     \<and> (- (2 ^ 31) \<le> sint L - sint R \<and> sint L - sint R < 2 ^ 31 \<longrightarrow>
          sint (L - R) = sint L - sint R)
     \<and> (- (2 ^ 31) \<le> sint L * sint R \<and> sint L * sint R < 2 ^ 31 \<longrightarrow>
          sint (L * R) = sint L * sint R)"
proof -
  note op = eval_op_unfold[OF l r, of iv vid]
  from eval_expr_frame[OF l] eval_expr_frame[OF r]
  have order: "\<exists>el er. yyError s1 = yyError s @ el \<and> yyError s2 = yyError s1 @ er"
    by blast
  have plain: "s2\<lparr>yyError := yyError s2 @ []\<rparr> = s2" by simp
  have both: "(\<exists>v errs. eval_expr (Node lbl l r N_OP iv vid) s
                     = Inr (v, s2\<lparr>yyError := yyError s2 @ errs\<rparr>))
         \<or> eval_expr (Node lbl l r N_OP iv vid) s = Inl (DivisionOverflow, s2)"
    using eval_op_cases[OF l r, of lbl iv vid]
  proof (elim disjE exE)
    fix v assume "eval_expr (Node lbl l r N_OP iv vid) s = Inr (v, s2)"
    with plain have "eval_expr (Node lbl l r N_OP iv vid) s
        = Inr (v, s2\<lparr>yyError := yyError s2 @ []\<rparr>)" by simp
    then show ?thesis by blast
  next
    fix m assume "eval_expr (Node lbl l r N_OP iv vid) s = Inr (0, yyerror m s2)"
    then have "eval_expr (Node lbl l r N_OP iv vid) s
        = Inr (0, s2\<lparr>yyError := yyError s2
             @ [''Error: '' @ m @ '' at line '' @ show_d (yylineno s2) @ ''\<newline>'']\<rparr>)"
      by (simp add: yyerror_def)
    then show ?thesis by blast
  next
    assume "eval_expr (Node lbl l r N_OP iv vid) s = Inl (DivisionOverflow, s2)"
    then show ?thesis by blast
  qed
  have quot: "R \<noteq> 0 \<and> \<not> (sint L = - (2 ^ 31) \<and> sint R = - 1) \<longrightarrow>
          eval_expr (Node ''/'' l r N_OP iv vid) s = Inr (word_of_int (sint L sdiv sint R), s2)
          \<and> sint (word_of_int (sint L sdiv sint R) :: int32) = sint L sdiv sint R"
  proof
    assume h: "R \<noteq> 0 \<and> \<not> (sint L = - (2 ^ 31) \<and> sint R = - 1)"
    then have c: "c_div L R = Some (word_of_int (sint L sdiv sint R))"
      by (simp add: c_div_Some)
    from h show "eval_expr (Node ''/'' l r N_OP iv vid) s
          = Inr (word_of_int (sint L sdiv sint R), s2)
        \<and> sint (word_of_int (sint L sdiv sint R) :: int32) = sint L sdiv sint R"
      using sint_c_div[OF c] by (simp add: op(4) c del: eval_expr.simps)
  qed
  have over: "sint L = - (2 ^ 31) \<and> sint R = - 1 \<longrightarrow>
          eval_expr (Node ''/'' l r N_OP iv vid) s = Inl (DivisionOverflow, s2)"
  proof
    assume h: "sint L = - (2 ^ 31) \<and> sint R = - 1"
    then have "sint R \<noteq> 0" by simp
    then have nz: "R \<noteq> 0" by (simp add: signed_eq_0_iff)
    from h have "c_div L R = None" by (simp add: c_div_None)
    with nz show "eval_expr (Node ''/'' l r N_OP iv vid) s = Inl (DivisionOverflow, s2)"
      by (simp add: op(4) del: eval_expr.simps)
  qed
  have cmp: "eval_expr (Node ''=='' l r N_OP iv vid) s = Inr (if L = R then 1 else 0, s2)"
    "eval_expr (Node ''!='' l r N_OP iv vid) s = Inr (if L \<noteq> R then 1 else 0, s2)"
    "eval_expr (Node ''<='' l r N_OP iv vid) s = Inr (if sint L \<le> sint R then 1 else 0, s2)"
    "eval_expr (Node ''>='' l r N_OP iv vid) s = Inr (if sint L \<ge> sint R then 1 else 0, s2)"
    "eval_expr (Node ''<'' l r N_OP iv vid) s = Inr (if sint L < sint R then 1 else 0, s2)"
    "eval_expr (Node ''>'' l r N_OP iv vid) s = Inr (if sint L > sint R then 1 else 0, s2)"
    by (simp_all add: op c_bool_def word_sle_eq word_sless_alt del: eval_expr.simps)
  have num: "- (2 ^ 31) \<le> sint L + sint R \<and> sint L + sint R < 2 ^ 31 \<longrightarrow>
          sint (L + R) = sint L + sint R"
    "- (2 ^ 31) \<le> sint L - sint R \<and> sint L - sint R < 2 ^ 31 \<longrightarrow>
          sint (L - R) = sint L - sint R"
    "- (2 ^ 31) \<le> sint L * sint R \<and> sint L * sint R < 2 ^ 31 \<longrightarrow>
          sint (L * R) = sint L * sint R"
    by (simp_all add: sint_add32 sint_sub32 sint_mul32)
  from order both op(1,2,3) quot over cmp num show ?thesis by blast
qed

text \<open>
  A declaration or assignment with the null pointer as left child, which no grammar
  action builds: \<^verbatim>\<open>varNode->kind\<close> is read through the null pointer once the expression
  is evaluated.
\<close>

lemma absent_target_faults:
  "k = N_DECL \<or> k = N_ASSIGN \<Longrightarrow> eval_expr e s = Inr (val, s1) \<Longrightarrow>
   execute_stmt (Node lbl Null e k iv vid) s
     = Inl (NullDereference, s1\<lparr>yytree := yytree s @ [tree_block (Node lbl Null e k iv vid)]\<rparr>)"
  by (auto simp: execute_stmt.simps eval_expr_after_header)

text \<open>Unfolding sets for running the interpreter on a given program.\<close>

lemmas builders =
  new_node_kind_def new_int_node_def new_var_node_def new_op_node_def new_decl_node_def
  new_assign_node_def new_print_node_def new_if_node_def new_stmtlist_node_def
  stmts_empty_def stmts_append_def if_else_action_def if_action_def stmts_of_def Let_def

lemmas runners =
  execute_stmt.simps execute_list.simps print_tree_header_def store_var_def yyerror_def
  in_sym_range_def init_state_def c_bool_def c_div_def
  show_d_def show_int_def show_nat.simps

text \<open>
  The grammar has no negative literals; \<^verbatim>\<open>(0 - 2147483647) - 1\<close> evaluates to the least
  32-bit integer and \<^verbatim>\<open>0 - 1\<close> to \<open>-1\<close>.
\<close>

lemma int_min_expr:
  "eval_expr (new_op_node ''-'' (new_op_node ''-'' (new_int_node 0) (new_int_node 2147483647))
                (new_int_node 1)) s = Inr (- 2147483648, s)"
  "eval_expr (new_op_node ''-'' (new_int_node 0) (new_int_node 1)) s = Inr (- 1, s)"
  by (simp_all add: builders)

lemma c_div_int_min: "c_div (- 2147483648) (- 1) = None"
  by (simp add: c_div_def)

section \<open>Absent nodes\<close>

text \<open>
  C10. \<^verbatim>\<open>eval_expr\<close>, \<^verbatim>\<open>execute_stmt\<close> and \<^verbatim>\<open>execute_list\<close> accept the null pointer:
  evaluating it gives 0, executing it does nothing, and in all three cases the state is
  returned as it was, so nothing is reported and nothing is rendered.
\<close>

theorem absent_node_total:
  "eval_expr Null s = Inr (0, s) \<and> execute_stmt Null s = Inr s \<and> execute_list Null s = Inr s"
  by (simp add: execute_stmt.simps execute_list.simps)

section \<open>Statement order\<close>

text \<open>
  C1. \<^verbatim>\<open>execute_list\<close> does nothing on the null pointer; on a \<^verbatim>\<open>N_STMTLIST\<close> node it
  executes the list in \<open>left\<close> first and then the statement in \<open>right\<close>; on a node of any
  other kind it executes that node as a statement. Hence the tree that the grammar
  builds for the statements \<open>xs\<close> of a source text executes them first to last.
\<close>

theorem execute_list_source_order:
  "execute_list Null s = Inr s
   \<and> execute_list (Node lbl l r N_STMTLIST iv vid) s =
       (case execute_list l s of Inl f \<Rightarrow> Inl f | Inr s1 \<Rightarrow> execute_stmt r s1)
   \<and> (k \<noteq> N_STMTLIST \<longrightarrow>
        execute_list (Node lbl l r k iv vid) s = execute_stmt (Node lbl l r k iv vid) s)
   \<and> execute_list (stmts_of xs) s = exec_in_order xs s"
  by (simp add: execute_list.simps execute_list_stmts_of)

theorem execute_list_source_order_witness:
  "N_PRINT \<noteq> N_STMTLIST
   \<and> execute_list (new_print_node (new_int_node 1)) (init_state 1)
       = execute_stmt (new_print_node (new_int_node 1)) (init_state 1)
   \<and> execute_list (stmts_of
            [new_print_node (new_int_node 1), new_print_node (new_int_node 2),
             new_print_node (new_int_node 3)]) (init_state 1)
       = exec_in_order
            [new_print_node (new_int_node 1), new_print_node (new_int_node 2),
             new_print_node (new_int_node 3)] (init_state 1)
   \<and> map_sum id yyout (exec_in_order
            [new_print_node (new_int_node 1), new_print_node (new_int_node 2),
             new_print_node (new_int_node 3)] (init_state 1))
       = Inr [''Print: 1\<newline>'', ''Print: 2\<newline>'', ''Print: 3\<newline>'']"
  using execute_list_source_order [of "init_state 1" "''print''" "new_int_node 1" Null 0 "- 1" N_PRINT
      "[new_print_node (new_int_node 1), new_print_node (new_int_node 2),
             new_print_node (new_int_node 3)]"]
  by (simp add: new_print_node_def new_int_node_def new_node_kind_def execute_stmt.simps
      print_tree_header_def init_state_def show_d_def show_int_def show_nat.simps)

section \<open>The if statement\<close>

text \<open>
  C2. Executing an \<^verbatim>\<open>N_IF\<close> node whose right child is a \<^verbatim>\<open>N_BRANCHES\<close> node evaluates the
  condition and then executes exactly one list: the then-list when the value is not 0,
  the else-list otherwise, from a state whose variables and output file are those
  before the statement. With a false condition and no else-list the statement leaves
  the variables and the output file as they were. The list that is not taken has no
  influence: replacing it by any other tree changes nothing but the rendering of the
  statement in the trace file.
\<close>

theorem if_executes_exactly_one_branch:
  assumes stmt: "stmt = Node lbl cond (Node blbl t e N_BRANCHES biv bvid) N_IF iv vid"
    and ev: "eval_expr cond s = Inr (c, s1)"
    and s1': "s1' = s1\<lparr>yytree := yytree s @ [tree_block stmt]\<rparr>"
  shows "execute_stmt stmt s = (if c \<noteq> 0 then execute_list t s1' else execute_list e s1')
    \<and> sym_tab s1' = sym_tab s \<and> yyout s1' = yyout s
    \<and> (c = 0 \<and> e = Null \<longrightarrow>
         execute_stmt stmt s =
           Inr (s\<lparr>yytree := yytree s @ [tree_block stmt], yyError := yyError s1\<rparr>))
    \<and> (c \<noteq> 0 \<longrightarrow> (\<forall>e'.
         outcome (execute_stmt (Node lbl cond (Node blbl t e' N_BRANCHES biv bvid) N_IF iv vid) s)
           = outcome (execute_stmt stmt s)))
    \<and> (c = 0 \<longrightarrow> (\<forall>t'.
         outcome (execute_stmt (Node lbl cond (Node blbl t' e N_BRANCHES biv bvid) N_IF iv vid) s)
           = outcome (execute_stmt stmt s)))"
proof (intro conjI impI allI)
  show run: "execute_stmt stmt s = (if c \<noteq> 0 then execute_list t s1' else execute_list e s1')"
    unfolding stmt s1' by (rule execute_if_unfold[OF ev])
  from eval_expr_frame[OF ev] show "sym_tab s1' = sym_tab s" "yyout s1' = yyout s"
    by (simp_all add: s1')
  have st: "s1' = s\<lparr>yytree := yytree s @ [tree_block stmt], yyError := yyError s1\<rparr>"
    unfolding s1' by (subst eval_expr_state[OF ev]) simp
  show "execute_stmt stmt s = Inr (s\<lparr>yytree := yytree s @ [tree_block stmt], yyError := yyError s1\<rparr>)"
    if "c = 0 \<and> e = Null"
    using that run st by (simp add: execute_list.simps)
  show "outcome (execute_stmt (Node lbl cond (Node blbl t e' N_BRANCHES biv bvid) N_IF iv vid) s)
           = outcome (execute_stmt stmt s)" if "c \<noteq> 0" for e'
    using that run
    by (simp add: execute_if_unfold[OF ev] s1')
       (rule outcome_execute_list, simp add: erase_trace_def)
  show "outcome (execute_stmt (Node lbl cond (Node blbl t' e N_BRANCHES biv bvid) N_IF iv vid) s)
           = outcome (execute_stmt stmt s)" if "c = 0" for t'
    using that run
    by (simp add: execute_if_unfold[OF ev] s1')
       (rule outcome_execute_list, simp add: erase_trace_def)
qed

theorem if_executes_exactly_one_branch_witness:
  "eval_expr (new_op_node ''=='' (new_int_node 1) (new_int_node 1)) (init_state 1)
     = Inr (1, init_state 1)
   \<and> (1 :: int32) \<noteq> 0
   \<and> map_sum id yyout
        (execute_stmt
          (if_else_action (new_op_node ''=='' (new_int_node 1) (new_int_node 1))
             (stmts_of [new_print_node (new_int_node 1)])
             (stmts_of [new_print_node (new_int_node 2)]))
          (init_state 1))
       = Inr [''Print: 1\<newline>'']
   \<and> outcome
        (execute_stmt
          (if_else_action (new_op_node ''=='' (new_int_node 1) (new_int_node 1))
             (stmts_of [new_print_node (new_int_node 1)]) Null)
          (init_state 1))
       = outcome
        (execute_stmt
          (if_else_action (new_op_node ''=='' (new_int_node 1) (new_int_node 1))
             (stmts_of [new_print_node (new_int_node 1)])
             (stmts_of [new_print_node (new_int_node 2)]))
          (init_state 1))
   \<and> eval_expr (new_op_node ''=='' (new_int_node 1) (new_int_node 2)) (init_state 1)
     = Inr (0, init_state 1)
   \<and> execute_stmt
        (if_action (new_op_node ''=='' (new_int_node 1) (new_int_node 2))
           (stmts_of [new_print_node (new_int_node 1)]))
        (init_state 1)
       = Inr ((init_state 1)\<lparr>yytree :=
           [tree_block (if_action (new_op_node ''=='' (new_int_node 1) (new_int_node 2))
              (stmts_of [new_print_node (new_int_node 1)]))]\<rparr>)"
proof -
  let ?eq11 = "new_op_node ''=='' (new_int_node 1) (new_int_node 1)"
  let ?eq12 = "new_op_node ''=='' (new_int_node 1) (new_int_node 2)"
  let ?p1 = "stmts_of [new_print_node (new_int_node 1)]"
  let ?p2 = "stmts_of [new_print_node (new_int_node 2)]"
  have ev1: "eval_expr ?eq11 (init_state 1) = Inr (1, init_state 1)"
    by (simp add: builders c_bool_def)
  have ev2: "eval_expr ?eq12 (init_state 1) = Inr (0, init_state 1)"
    by (simp add: builders c_bool_def)
  note taken = if_executes_exactly_one_branch
    [where lbl = "''if''" and blbl = "''branches''" and t = ?p1 and e = ?p2
       and iv = 0 and vid = "- 1" and biv = 0 and bvid = "- 1", OF refl ev1 refl]
  note skipped = if_executes_exactly_one_branch
    [where lbl = "''if''" and blbl = "''branches''" and t = ?p1 and e = Null
       and iv = 0 and vid = "- 1" and biv = 0 and bvid = "- 1", OF refl ev2 refl]
  have shape: "if_else_action c t e = Node ''if'' c (Node ''branches'' t e N_BRANCHES 0 (- 1)) N_IF 0 (- 1)"
    "if_action c t = Node ''if'' c (Node ''branches'' t Null N_BRANCHES 0 (- 1)) N_IF 0 (- 1)"
    for c t e
    by (simp_all add: builders)
  have one: "(1 :: int32) \<noteq> 0" by simp
  from taken one have a: "outcome (execute_stmt (if_else_action ?eq11 ?p1 Null) (init_state 1))
       = outcome (execute_stmt (if_else_action ?eq11 ?p1 ?p2) (init_state 1))"
    unfolding shape by blast
  from taken have b: "map_sum id yyout (execute_stmt (if_else_action ?eq11 ?p1 ?p2) (init_state 1))
       = Inr [''Print: 1\<newline>'']"
    unfolding shape by (simp add: builders runners)
  from skipped have c: "execute_stmt (if_action ?eq12 ?p1) (init_state 1)
       = Inr ((init_state 1)\<lparr>yytree := [tree_block (if_action ?eq12 ?p1)]\<rparr>)"
    unfolding shape by (simp add: init_state_def execute_list.simps)
  from ev1 ev2 a b c one show ?thesis by blast
qed

section \<open>Division by zero\<close>

text \<open>
  C3. Evaluating a node with label \<^verbatim>\<open>/\<close> whose right operand evaluates to 0 adds the
  line \<^verbatim>\<open>Error: Division by zero at line <n>\<close> to the error file and gives the value 0.
  \<^verbatim>\<open>eval_expr\<close> returns to its caller as for any other value: a print statement holding
  the division prints 0, and the statement after it in the list is executed next.
\<close>

theorem division_by_zero_recovers:
  assumes l: "eval_expr l s = Inr (L, s1)"
    and r: "eval_expr r s1 = Inr (0, s2)"
    and d: "d = Node ''/'' l r N_OP iv vid"
    and report: "report = ''Error: Division by zero at line '' @ show_d (yylineno s) @ ''\<newline>''"
    and after: "s' = s\<lparr>yyout := yyout s @ [''Print: 0\<newline>''],
                       yytree := yytree s @ [tree_block (new_print_node d)],
                       yyError := yyError s2 @ [report]\<rparr>"
  shows "eval_expr d s = Inr (0, s2\<lparr>yyError := yyError s2 @ [report]\<rparr>)
       \<and> execute_stmt (new_print_node d) s = Inr s'
       \<and> execute_list (stmts_of [new_print_node d, next_stmt]) s = execute_stmt next_stmt s'"
proof -
  from eval_expr_frame[OF l] eval_expr_frame[OF r] have ln: "yylineno s2 = yylineno s" by simp
  have ev: "eval_expr d s = Inr (0, s2\<lparr>yyError := yyError s2 @ [report]\<rparr>)"
    by (simp add: d l r yyerror_def report ln)
  have "show_d 0 = ''0''" by (simp add: show_d_def show_int_def show_nat.simps)
  with execute_print_unfold[OF ev, of "''print''" Null 0 "- 1"]
  have pr: "execute_stmt (new_print_node d) s = Inr s'"
    by (simp add: new_print_node_def new_node_kind_def after)
  have "execute_list (stmts_of [new_print_node d, next_stmt]) s = execute_stmt next_stmt s'"
    by (simp add: execute_list_stmts_of pr split: sum.splits)
  with ev pr show ?thesis by simp
qed

theorem division_by_zero_recovers_witness:
  "eval_expr (new_int_node 5) (init_state 1) = Inr (5, init_state 1)
   \<and> eval_expr (new_int_node 0) (init_state 1) = Inr (0, init_state 1)
   \<and> eval_expr (new_op_node ''/'' (new_int_node 5) (new_int_node 0)) (init_state 1)
       = Inr (0, (init_state 1)\<lparr>yyError := [''Error: Division by zero at line 1\<newline>'']\<rparr>)
   \<and> map_sum id yyout
        (run_program 1 (stmts_of
           [new_print_node (new_op_node ''/'' (new_int_node 5) (new_int_node 0)),
            new_print_node (new_int_node 9)]))
       = Inr [''Print: 0\<newline>'', ''Print: 9\<newline>'']
   \<and> map_sum id yyError
        (run_program 1 (stmts_of
           [new_print_node (new_op_node ''/'' (new_int_node 5) (new_int_node 0)),
            new_print_node (new_int_node 9)]))
       = Inr [''Error: Division by zero at line 1\<newline>'']"
proof -
  have e5: "eval_expr (new_int_node 5) (init_state 1) = Inr (5, init_state 1)"
    by (simp add: builders)
  have e0: "eval_expr (new_int_node 0) (init_state 1) = Inr (0, init_state 1)"
    by (simp add: builders)
  have d: "new_op_node ''/'' (new_int_node 5) (new_int_node 0)
             = Node ''/'' (new_int_node 5) (new_int_node 0) N_OP 0 (- 1)"
    by (simp add: builders)
  note dz = division_by_zero_recovers[OF e5 e0 d refl refl, of "new_print_node (new_int_node 9)"]
  have one: "show_d (yylineno (init_state 1)) = ''1''"
    by (simp add: init_state_def show_d_def show_int_def show_nat.simps)
  from dz have a: "eval_expr (new_op_node ''/'' (new_int_node 5) (new_int_node 0)) (init_state 1)
       = Inr (0, (init_state 1)\<lparr>yyError := [''Error: Division by zero at line 1\<newline>'']\<rparr>)"
    by (simp add: one) (simp add: init_state_def)
  from dz have b: "map_sum id yyout
        (run_program 1 (stmts_of
           [new_print_node (new_op_node ''/'' (new_int_node 5) (new_int_node 0)),
            new_print_node (new_int_node 9)]))
       = Inr [''Print: 0\<newline>'', ''Print: 9\<newline>'']"
    by (simp add: run_program_def) (simp add: builders runners)
  from dz have c: "map_sum id yyError
        (run_program 1 (stmts_of
           [new_print_node (new_op_node ''/'' (new_int_node 5) (new_int_node 0)),
            new_print_node (new_int_node 9)]))
       = Inr [''Error: Division by zero at line 1\<newline>'']"
    by (simp add: run_program_def) (simp add: builders runners)
  from e5 e0 a b c show ?thesis by blast
qed

section \<open>Declarations, assignments and print statements\<close>

text \<open>
  C5. Let the expression of the statement evaluate to \<open>val\<close>, and let the target of a
  declaration or assignment be a variable node with an id in the range of the array.
  Then the statement succeeds; a declaration or assignment stores \<open>val\<close> in the slot of
  the id (reading the variable afterwards gives \<open>val\<close>) and changes no other slot; and
  each of the three statements adds exactly one line to the output file, namely
  \<^verbatim>\<open>Declared var[<id>] = <val>\<close>, \<^verbatim>\<open>Assigned var[<id>] = <val>\<close> and \<^verbatim>\<open>Print: <val>\<close>.
  The program \<^verbatim>\<open>int a = 3; a = a + 4; print(a);\<close> writes the lines for 3, 7 and 7 in
  that order, whatever id in range the scanner gives to \<^verbatim>\<open>a\<close>.
\<close>

theorem decl_assign_print_effects:
  assumes ev: "eval_expr e s = Inr (val, s1)"
    and rng: "in_sym_range ident"
    and len: "length (sym_tab s) = 256"
    and var: "v = Node vlbl vl vr N_VAR viv ident"
    and dec: "dec = Node lbl v e N_DECL iv vid"
    and asn: "asn = Node lbl v e N_ASSIGN iv vid"
    and prt: "prt = Node lbl e r N_PRINT iv vid"
  shows
    "execute_stmt dec s =
       Inr (s\<lparr>sym_tab := (sym_tab s)[nat (sint ident) := val],
              yyout := yyout s @
                [''Declared var['' @ show_d ident @ ''] = '' @ show_d val @ ''\<newline>''],
              yytree := yytree s @ [tree_block dec],
              yyError := yyError s1\<rparr>)
     \<and> execute_stmt asn s =
       Inr (s\<lparr>sym_tab := (sym_tab s)[nat (sint ident) := val],
              yyout := yyout s @
                [''Assigned var['' @ show_d ident @ ''] = '' @ show_d val @ ''\<newline>''],
              yytree := yytree s @ [tree_block asn],
              yyError := yyError s1\<rparr>)
     \<and> execute_stmt prt s =
       Inr (s\<lparr>yyout := yyout s @ [''Print: '' @ show_d val @ ''\<newline>''],
              yytree := yytree s @ [tree_block prt],
              yyError := yyError s1\<rparr>)
     \<and> (\<forall>s'. execute_stmt dec s = Inr s' \<or> execute_stmt asn s = Inr s'
           \<longrightarrow> eval_expr v s' = Inr (val, s'))
     \<and> map_sum id yyout
         (run_program line (stmts_of
            [new_decl_node (new_var_node ident) (new_int_node 3),
             new_assign_node (new_var_node ident)
               (new_op_node ''+'' (new_var_node ident) (new_int_node 4)),
             new_print_node (new_var_node ident)]))
       = Inr [''Declared var['' @ show_d ident @ ''] = 3\<newline>'',
              ''Assigned var['' @ show_d ident @ ''] = 7\<newline>'',
              ''Print: 7\<newline>'']"
proof -
  have d: "execute_stmt dec s =
       Inr (s\<lparr>sym_tab := (sym_tab s)[nat (sint ident) := val],
              yyout := yyout s @
                [''Declared var['' @ show_d ident @ ''] = '' @ show_d val @ ''\<newline>''],
              yytree := yytree s @ [tree_block dec],
              yyError := yyError s1\<rparr>)"
    unfolding dec var using execute_store_unfold[OF ev rng, of N_DECL "''Declared''"] by simp
  have a: "execute_stmt asn s =
       Inr (s\<lparr>sym_tab := (sym_tab s)[nat (sint ident) := val],
              yyout := yyout s @
                [''Assigned var['' @ show_d ident @ ''] = '' @ show_d val @ ''\<newline>''],
              yytree := yytree s @ [tree_block asn],
              yyError := yyError s1\<rparr>)"
    unfolding asn var using execute_store_unfold[OF ev rng, of N_ASSIGN "''Assigned''"] by simp
  have p: "execute_stmt prt s =
       Inr (s\<lparr>yyout := yyout s @ [''Print: '' @ show_d val @ ''\<newline>''],
              yytree := yytree s @ [tree_block prt],
              yyError := yyError s1\<rparr>)"
    unfolding prt by (rule execute_print_unfold[OF ev])
  from rng have idx: "nat (sint ident) < 256" by (auto simp: in_sym_range_def)
  have rd: "eval_expr v s' = Inr (val, s')"
    if "execute_stmt dec s = Inr s' \<or> execute_stmt asn s = Inr s'" for s'
    using that d a rng idx len by (auto simp: var)
  have sh: "show_d 3 = ''3''" "show_d 7 = ''7''"
    by (simp_all add: show_d_def show_int_def show_nat.simps)
  have prog: "map_sum id yyout
         (run_program line (stmts_of
            [new_decl_node (new_var_node ident) (new_int_node 3),
             new_assign_node (new_var_node ident)
               (new_op_node ''+'' (new_var_node ident) (new_int_node 4)),
             new_print_node (new_var_node ident)]))
       = Inr [''Declared var['' @ show_d ident @ ''] = 3\<newline>'',
              ''Assigned var['' @ show_d ident @ ''] = 7\<newline>'',
              ''Print: 7\<newline>'']"
    using rng idx
    by (simp add: run_program_def builders execute_stmt.simps execute_list.simps
        print_tree_header_def store_var_def init_state_def sh)
  from d a p rd prog show ?thesis by blast
qed

theorem decl_assign_print_effects_witness:
  "eval_expr (new_int_node 3) (init_state 1) = Inr (3, init_state 1)
   \<and> in_sym_range 0
   \<and> length (sym_tab (init_state 1)) = 256
   \<and> map_sum id yyout
        (execute_stmt (new_decl_node (new_var_node 0) (new_int_node 3)) (init_state 1))
       = Inr [''Declared var[0] = 3\<newline>'']
   \<and> map_sum id sym_tab
        (execute_stmt (new_assign_node (new_var_node 0) (new_int_node 3)) (init_state 1))
       = Inr ((replicate 256 0)[0 := 3])
   \<and> map_sum id yyout
        (run_program 1 (stmts_of
           [new_decl_node (new_var_node 0) (new_int_node 3),
            new_assign_node (new_var_node 0)
              (new_op_node ''+'' (new_var_node 0) (new_int_node 4)),
            new_print_node (new_var_node 0)]))
       = Inr [''Declared var[0] = 3\<newline>'', ''Assigned var[0] = 7\<newline>'',
              ''Print: 7\<newline>'']"
proof -
  have ev: "eval_expr (new_int_node 3) (init_state 1) = Inr (3, init_state 1)"
    by (simp add: builders)
  have rng: "in_sym_range 0" by (simp add: in_sym_range_def)
  have len: "length (sym_tab (init_state 1)) = 256" by (simp add: init_state_def)
  have var: "new_var_node 0 = Node ''VAR(id=0)'' Null Null N_VAR 0 0"
    by (simp add: builders show_d_def show_int_def show_nat.simps)
  have sh: "show_d 0 = ''0''" "show_d 3 = ''3''"
    by (simp_all add: show_d_def show_int_def show_nat.simps)
  note fx = decl_assign_print_effects
    [where lbl = "''dec''" and iv = 0 and vid = "- 1" and line = 1, OF ev rng len var refl refl refl]
  note fy = decl_assign_print_effects
    [where lbl = "''assign''" and iv = 0 and vid = "- 1" and line = 1, OF ev rng len var refl refl refl]
  from fx have d: "map_sum id yyout
        (execute_stmt (new_decl_node (new_var_node 0) (new_int_node 3)) (init_state 1))
       = Inr [''Declared var[0] = 3\<newline>'']"
    by (simp add: new_decl_node_def new_node_kind_def sh) (simp add: init_state_def)
  from fy have a: "map_sum id sym_tab
        (execute_stmt (new_assign_node (new_var_node 0) (new_int_node 3)) (init_state 1))
       = Inr ((replicate 256 0)[0 := 3])"
    by (simp add: new_assign_node_def new_node_kind_def) (simp add: init_state_def)
  from fx have p: "map_sum id yyout
        (run_program 1 (stmts_of
           [new_decl_node (new_var_node 0) (new_int_node 3),
            new_assign_node (new_var_node 0)
              (new_op_node ''+'' (new_var_node 0) (new_int_node 4)),
            new_print_node (new_var_node 0)]))
       = Inr [''Declared var[0] = 3\<newline>'', ''Assigned var[0] = 7\<newline>'',
              ''Print: 7\<newline>'']"
    by (simp add: sh)
  from ev rng len d a p show ?thesis by blast
qed

section \<open>Reading variables\<close>

text \<open>
  C6. Evaluating a variable node returns the slot of its id when the id lies in
  \<open>[0, 256)\<close> and 0 otherwise, and reports nothing. The array has 256 slots, all 0 when
  the run starts, so every variable reads 0 then; and after a run of any program a
  variable that no declaration or assignment of the program names still reads 0.
\<close>

theorem variable_read:
  "eval_expr (Node lbl l r N_VAR iv ident) s =
     Inr (if 0 \<le> sint ident \<and> sint ident < 256 then sym_tab s ! nat (sint ident) else 0, s)
   \<and> length (sym_tab (init_state line)) = 256
   \<and> set (sym_tab (init_state line)) = {0}
   \<and> eval_expr (Node lbl l r N_VAR iv ident) (init_state line) = Inr (0, init_state line)
   \<and> (run_program line root = Inr s' \<and> ident \<notin> assigned_ids root \<longrightarrow>
        length (sym_tab s') = 256 \<and> eval_expr (Node lbl l r N_VAR iv ident) s' = Inr (0, s'))"
proof -
  have rd: "eval_expr (Node lbl l r N_VAR iv ident) s =
     Inr (if 0 \<le> sint ident \<and> sint ident < 256 then sym_tab s ! nat (sint ident) else 0, s)" for s
    by (simp add: in_sym_range_def)
  have z: "in_sym_range ident \<Longrightarrow> sym_tab (init_state line) ! nat (sint ident) = 0"
    by (auto simp: init_state_def in_sym_range_def)
  have i: "eval_expr (Node lbl l r N_VAR iv ident) (init_state line) = Inr (0, init_state line)"
    using z by simp
  have run: "length (sym_tab s') = 256 \<and> eval_expr (Node lbl l r N_VAR iv ident) s' = Inr (0, s')"
    if "run_program line root = Inr s' \<and> ident \<notin> assigned_ids root"
  proof -
    from that execute_keeps_unassigned(2)[of root "init_state line"]
    have k: "keeps_unassigned (assigned_ids root) (sym_tab (init_state line)) (sym_tab s')"
      by (simp add: run_program_def)
    then have "length (sym_tab s') = 256" by (simp add: keeps_unassigned_def init_state_def)
    moreover from k that z have "in_sym_range ident \<Longrightarrow> sym_tab s' ! nat (sint ident) = 0"
      by (simp add: keeps_unassigned_def)
    ultimately show ?thesis by simp
  qed
  from rd[of s] i run show ?thesis by (simp add: init_state_def)
qed

theorem variable_read_witness:
  "run_program 1 (stmts_of [new_decl_node (new_var_node 0) (new_int_node 3)])
     = Inr \<lparr>sym_tab = (replicate 256 0)[0 := 3],
            yyout = [''Declared var[0] = 3\<newline>''],
            yytree = [tree_block (new_decl_node (new_var_node 0) (new_int_node 3))],
            yyError = [], yylineno = 1\<rparr>
   \<and> 1 \<notin> assigned_ids (stmts_of [new_decl_node (new_var_node 0) (new_int_node 3)])
   \<and> eval_expr (new_var_node 1)
        \<lparr>sym_tab = (replicate 256 0)[0 := 3],
         yyout = [''Declared var[0] = 3\<newline>''],
         yytree = [tree_block (new_decl_node (new_var_node 0) (new_int_node 3))],
         yyError = [], yylineno = 1\<rparr>
       = Inr (0, \<lparr>sym_tab = (replicate 256 0)[0 := 3],
                 yyout = [''Declared var[0] = 3\<newline>''],
                 yytree = [tree_block (new_decl_node (new_var_node 0) (new_int_node 3))],
                 yyError = [], yylineno = 1\<rparr>)
   \<and> eval_expr (new_var_node 0)
        \<lparr>sym_tab = (replicate 256 0)[0 := 3],
         yyout = [''Declared var[0] = 3\<newline>''],
         yytree = [tree_block (new_decl_node (new_var_node 0) (new_int_node 3))],
         yyError = [], yylineno = 1\<rparr>
       = Inr (3, \<lparr>sym_tab = (replicate 256 0)[0 := 3],
                 yyout = [''Declared var[0] = 3\<newline>''],
                 yytree = [tree_block (new_decl_node (new_var_node 0) (new_int_node 3))],
                 yyError = [], yylineno = 1\<rparr>)
   \<and> eval_expr (new_var_node 256) (init_state 1) = Inr (0, init_state 1)
   \<and> eval_expr (new_var_node (- 1)) (init_state 1) = Inr (0, init_state 1)"
proof -
  let ?root = "stmts_of [new_decl_node (new_var_node 0) (new_int_node 3)]"
  let ?s' = "\<lparr>sym_tab = (replicate 256 0)[0 := 3],
         yyout = [''Declared var[0] = 3\<newline>''],
         yytree = [tree_block (new_decl_node (new_var_node 0) (new_int_node 3))],
         yyError = [], yylineno = 1 :: int32\<rparr>"
  have run: "run_program 1 ?root = Inr ?s'"
    by (simp add: run_program_def builders runners)
  have un: "1 \<notin> assigned_ids ?root"
    by (simp add: builders)
  have var: "new_var_node i = Node (''VAR(id='' @ show_d i @ '')'') Null Null N_VAR 0 i" for i
    by (simp add: builders)
  from variable_read[of _ Null Null 0 1 ?s' 1 ?root ?s'] run un
  have a: "eval_expr (new_var_node 1) ?s' = Inr (0, ?s')"
    unfolding var by simp
  from variable_read[of _ Null Null 0 0 ?s' 1 ?root ?s']
  have b: "eval_expr (new_var_node 0) ?s' = Inr (3, ?s')"
    unfolding var by simp
  from variable_read[of _ Null Null 0 256 "init_state 1" 1 ?root ?s']
  have c: "eval_expr (new_var_node 256) (init_state 1) = Inr (0, init_state 1)"
    unfolding var by simp
  from variable_read[of _ Null Null 0 "- 1" "init_state 1" 1 ?root ?s']
  have d: "eval_expr (new_var_node (- 1)) (init_state 1) = Inr (0, init_state 1)"
    unfolding var by simp
  from run un a b c d show ?thesis by blast
qed

section \<open>The shape of an if node\<close>

text \<open>
  C8, as the claim states it, fails in its last part: for an \<^verbatim>\<open>if\<close> without \<^verbatim>\<open>else\<close>,
  rule 14 passes \<^verbatim>\<open>NULL\<close> as the else-list, so the else child of the holder is the null
  pointer.
\<close>

theorem if_without_else_null_counterexample:
  "right (right (if_action (new_op_node ''=='' (new_int_node 1) (new_int_node 2))
                   (stmts_of [new_print_node (new_int_node 1)]))) = Null"
  by (simp add: if_action_def new_if_node_def new_node_kind_def)

text \<open>
  C8, amended. Both forms of the if statement go through \<^verbatim>\<open>new_if_node\<close> and give a
  node of kind \<^verbatim>\<open>N_IF\<close> with the condition as left child and a holder of kind
  \<^verbatim>\<open>N_BRANCHES\<close>, never the null pointer, as right child; the holder has the then-list as
  left child and the else-list as right child. Without \<^verbatim>\<open>else\<close> the else child of the
  holder is the null pointer, which is also what an empty statement list is (rule 3):
  the tree is the one that an \<^verbatim>\<open>else\<close> with an empty block gives.
\<close>

theorem if_node_uniform_shape:
  "new_if_node cond thenList elseList =
     Node ''if'' cond (Node ''branches'' thenList elseList N_BRANCHES 0 (- 1)) N_IF 0 (- 1)
   \<and> if_else_action cond thenList elseList = new_if_node cond thenList elseList
   \<and> if_action cond thenList = new_if_node cond thenList Null
   \<and> if_action cond thenList = if_else_action cond thenList stmts_empty
   \<and> kind (if_action cond thenList) = N_IF
   \<and> left (if_action cond thenList) = cond
   \<and> right (if_action cond thenList) \<noteq> Null
   \<and> kind (right (if_action cond thenList)) = N_BRANCHES
   \<and> left (right (if_action cond thenList)) = thenList
   \<and> right (right (if_action cond thenList)) = Null"
  by (simp add: if_action_def if_else_action_def new_if_node_def new_node_kind_def stmts_empty_def)

section \<open>Binary operators\<close>

text \<open>
  C7. Both operands are evaluated, left before right, for every operator, and the
  comparisons give 0 or 1 (\<open>binary_op_evaluation\<close>); but one division returns no result.
  Line 236 guards the division against a divisor of 0 only, so line 237 divides the
  least integer by \<open>-1\<close>: the quotient does not fit in an \<^verbatim>\<open>int\<close> and the program is
  killed. For \<^verbatim>\<open>print(((0 - 2147483647) - 1) / (0 - 1)); print(9);\<close> the evaluation of
  the division stops, and so does the run: the block of the first statement is in the
  trace file, nothing is in the output file, and the second statement is not executed.
\<close>

theorem division_overflow_stops:
  "eval_expr
     (new_op_node ''/''
        (new_op_node ''-'' (new_op_node ''-'' (new_int_node 0) (new_int_node 2147483647))
           (new_int_node 1))
        (new_op_node ''-'' (new_int_node 0) (new_int_node 1)))
     (init_state 1)
   = Inl (DivisionOverflow, init_state 1)
   \<and> run_program 1
       (stmts_of
          [new_print_node
             (new_op_node ''/''
                (new_op_node ''-'' (new_op_node ''-'' (new_int_node 0) (new_int_node 2147483647))
                   (new_int_node 1))
                (new_op_node ''-'' (new_int_node 0) (new_int_node 1))),
           new_print_node (new_int_node 9)])
   = Inl (DivisionOverflow,
          (init_state 1)\<lparr>yytree :=
            [tree_block
               (new_print_node
                  (new_op_node ''/''
                     (new_op_node ''-''
                        (new_op_node ''-'' (new_int_node 0) (new_int_node 2147483647))
                        (new_int_node 1))
                     (new_op_node ''-'' (new_int_node 0) (new_int_node 1))))]\<rparr>)"
proof -
  let ?q = "new_op_node ''/''
        (new_op_node ''-'' (new_op_node ''-'' (new_int_node 0) (new_int_node 2147483647))
           (new_int_node 1))
        (new_op_node ''-'' (new_int_node 0) (new_int_node 1))"
  have ev: "eval_expr ?q s = Inl (DivisionOverflow, s)" for s
    using eval_op_unfold(4)[OF int_min_expr(1) int_min_expr(2), of 0 "- 1" s]
    by (simp add: new_op_node_def[of "''/''"] new_node_kind_def c_div_int_min)
  have pr: "execute_stmt (new_print_node ?q) (init_state 1)
      = Inl (DivisionOverflow, (init_state 1)\<lparr>yytree := [tree_block (new_print_node ?q)]\<rparr>)"
    using execute_plain_stops[of N_PRINT ?q Null "init_state 1" DivisionOverflow "init_state 1"
        "''print''" 0 "- 1"] ev[of "init_state 1"]
    by (simp add: new_print_node_def new_node_kind_def) (simp add: init_state_def)
  have "run_program 1 (stmts_of [new_print_node ?q, new_print_node (new_int_node 9)])
      = Inl (DivisionOverflow, (init_state 1)\<lparr>yytree := [tree_block (new_print_node ?q)]\<rparr>)"
    by (simp add: run_program_def execute_list_stmts_of pr)
  with ev[of "init_state 1"] show ?thesis by simp
qed

section \<open>The trace file\<close>

text \<open>
  C4, as the claim states it, fails: the statements of a branch that is not taken are
  rendered in the trace file, inside the block of the if statement, because
  \<^verbatim>\<open>print_tree_header\<close> renders the whole subtree of the statement it is given. For
  \<^verbatim>\<open>if (1 == 2): print(7); end\<close> the run writes one block, and the rendering of
  \<^verbatim>\<open>print(7)\<close> at its depth is part of it.
\<close>

theorem untaken_branch_rendered_counterexample:
  "run_program 1
     (stmts_of [if_action (new_op_node ''=='' (new_int_node 1) (new_int_node 2))
                  (stmts_of [new_print_node (new_int_node 7)])])
     = Inr ((init_state 1)\<lparr>yytree :=
         [tree_block (if_action (new_op_node ''=='' (new_int_node 1) (new_int_node 2))
                        (stmts_of [new_print_node (new_int_node 7)]))]\<rparr>)
   \<and> sublist (printTreeVertical (new_print_node (new_int_node 7)) 15)
        (concat
           [tree_block (if_action (new_op_node ''=='' (new_int_node 1) (new_int_node 2))
                          (stmts_of [new_print_node (new_int_node 7)]))])
   \<and> printTreeVertical (new_print_node (new_int_node 7)) 15
       = ''\<newline>               print\<newline>\<newline>                    INTEGER(7)\<newline>''"
proof -
  have run: "run_program 1
     (stmts_of [if_action (new_op_node ''=='' (new_int_node 1) (new_int_node 2))
                  (stmts_of [new_print_node (new_int_node 7)])])
     = Inr ((init_state 1)\<lparr>yytree :=
         [tree_block (if_action (new_op_node ''=='' (new_int_node 1) (new_int_node 2))
                        (stmts_of [new_print_node (new_int_node 7)]))]\<rparr>)"
    by (simp add: run_program_def builders execute_stmt.simps execute_list.simps
        print_tree_header_def init_state_def c_bool_def)
  have sub: "sublist (printTreeVertical (new_print_node (new_int_node 7)) 15)
        (concat
           [tree_block (if_action (new_op_node ''=='' (new_int_node 1) (new_int_node 2))
                          (stmts_of [new_print_node (new_int_node 7)]))])"
    by code_simp
  have shown: "printTreeVertical (new_print_node (new_int_node 7)) 15
       = ''\<newline>               print\<newline>\<newline>                    INTEGER(7)\<newline>''"
    by code_simp
  from run sub shown show ?thesis by blast
qed

text \<open>
  C4, amended. Executing a statement node writes the block of that statement to the
  trace file first, before the effect of the statement is performed: the block follows
  what the trace file held, in every state the run reaches from there, also when the
  run stops inside the statement; and when the evaluation of the expression of a
  declaration, assignment or print statement stops, the block has been written while
  the variables and the output file are still those before the statement. A
  declaration, assignment or print statement adds exactly that one block, so a list of
  \<open>n\<close> such statements adds their \<open>n\<close> blocks in order. After its own block an if
  statement adds the blocks that executing the taken list adds, and nothing else: the
  statements of the other list get no block of their own (none at all when the
  condition is false and there is no else). They appear in the trace file only inside
  the block of the if statement, which holds the rendering of both lists.
\<close>

theorem trace_one_block_per_executed_statement:
  assumes stmt: "stmt = Node lbl l r k iv vid"
  shows "(\<exists>rest. yytree (reached (execute_stmt stmt s)) = yytree s @ tree_block stmt # rest)
     \<and> ((k = N_DECL \<or> k = N_ASSIGN \<or> k = N_PRINT)
          \<and> eval_expr (if k = N_PRINT then l else r) s = Inl (f, sf) \<longrightarrow>
          execute_stmt stmt s = Inl (f, sf\<lparr>yytree := yytree s @ [tree_block stmt]\<rparr>)
          \<and> sym_tab sf = sym_tab s \<and> yyout sf = yyout s)
     \<and> ((k = N_DECL \<or> k = N_ASSIGN \<or> k = N_PRINT) \<and> execute_stmt stmt s = Inr s' \<longrightarrow>
          yytree s' = yytree s @ [tree_block stmt])
     \<and> (k = N_IF \<and> r = Node blbl t e N_BRANCHES biv bvid \<and> eval_expr l s = Inr (c, sc)
          \<and> execute_stmt stmt s = Inr s' \<longrightarrow>
          (\<exists>s2. execute_list (if c \<noteq> 0 then t else e) (erase_trace sc) = Inr s2
                \<and> yytree s' = yytree s @ tree_block stmt # yytree s2))
     \<and> (k = N_IF \<and> r = Node blbl t Null N_BRANCHES biv bvid \<and> eval_expr l s = Inr (0, sc) \<longrightarrow>
          (\<exists>s3. execute_stmt stmt s = Inr s3 \<and> yytree s3 = yytree s @ [tree_block stmt]))
     \<and> (r = Node blbl t e N_BRANCHES biv bvid \<longrightarrow>
          sublist (printTreeVertical t 10) (tree_block stmt)
          \<and> sublist (printTreeVertical e 10) (tree_block stmt))
     \<and> ((\<forall>x \<in> set xs. plain_stmt x) \<and> execute_list (stmts_of xs) s = Inr s'' \<longrightarrow>
          yytree s'' = yytree s @ map tree_block xs)"
proof (intro conjI impI)
  show "\<exists>rest. yytree (reached (execute_stmt stmt s)) = yytree s @ tree_block stmt # rest"
    unfolding stmt by (rule execute_stmt_reached_first)
  show "execute_stmt stmt s = Inl (f, sf\<lparr>yytree := yytree s @ [tree_block stmt]\<rparr>)"
    if "(k = N_DECL \<or> k = N_ASSIGN \<or> k = N_PRINT)
          \<and> eval_expr (if k = N_PRINT then l else r) s = Inl (f, sf)"
    unfolding stmt using that by (intro execute_plain_stops) simp_all
  show "sym_tab sf = sym_tab s" "yyout sf = yyout s"
    if "(k = N_DECL \<or> k = N_ASSIGN \<or> k = N_PRINT)
          \<and> eval_expr (if k = N_PRINT then l else r) s = Inl (f, sf)"
    using that eval_expr_fault_frame[of "if k = N_PRINT then l else r" s f sf] by simp_all
  show "yytree s' = yytree s @ [tree_block stmt]"
    if "(k = N_DECL \<or> k = N_ASSIGN \<or> k = N_PRINT) \<and> execute_stmt stmt s = Inr s'"
    using that unfolding stmt by (intro execute_plain_trace) simp_all
  show "\<exists>s2. execute_list (if c \<noteq> 0 then t else e) (erase_trace sc) = Inr s2
                \<and> yytree s' = yytree s @ tree_block stmt # yytree s2"
    if h: "k = N_IF \<and> r = Node blbl t e N_BRANCHES biv bvid \<and> eval_expr l s = Inr (c, sc)
          \<and> execute_stmt stmt s = Inr s'"
  proof -
    from h stmt have st: "stmt = Node lbl l (Node blbl t e N_BRANCHES biv bvid) N_IF iv vid"
      by simp
    from h have ev: "eval_expr l s = Inr (c, sc)" and run: "execute_stmt stmt s = Inr s'"
      by simp_all
    from run ev show ?thesis unfolding st by (rule execute_if_trace)
  qed
  show "\<exists>s3. execute_stmt stmt s = Inr s3 \<and> yytree s3 = yytree s @ [tree_block stmt]"
    if h: "k = N_IF \<and> r = Node blbl t Null N_BRANCHES biv bvid \<and> eval_expr l s = Inr (0, sc)"
  proof -
    from h stmt have st: "stmt = Node lbl l (Node blbl t Null N_BRANCHES biv bvid) N_IF iv vid"
      by simp
    from h have ev: "eval_expr l s = Inr (0, sc)" by simp
    show ?thesis unfolding st by (simp add: execute_if_unfold[OF ev] execute_list.simps)
  qed
  show "sublist (printTreeVertical t 10) (tree_block stmt)"
    if "r = Node blbl t e N_BRANCHES biv bvid"
    unfolding stmt that by (rule tree_block_holds_branches)
  show "sublist (printTreeVertical e 10) (tree_block stmt)"
    if "r = Node blbl t e N_BRANCHES biv bvid"
    unfolding stmt that by (rule tree_block_holds_branches)
  show "yytree s'' = yytree s @ map tree_block xs"
    if "(\<forall>x \<in> set xs. plain_stmt x) \<and> execute_list (stmts_of xs) s = Inr s''"
    using that exec_in_order_plain_trace[of xs s s''] by (simp add: execute_list_stmts_of)
qed

theorem trace_one_block_per_executed_statement_witness:
  "execute_stmt
     (if_action (new_op_node ''=='' (new_int_node 1) (new_int_node 2))
        (stmts_of [new_print_node (new_int_node 7), new_print_node (new_int_node 8)]))
     (init_state 1)
     = Inr ((init_state 1)\<lparr>yytree :=
         [tree_block (if_action (new_op_node ''=='' (new_int_node 1) (new_int_node 2))
            (stmts_of [new_print_node (new_int_node 7), new_print_node (new_int_node 8)]))]\<rparr>)
   \<and> eval_expr (new_op_node ''=='' (new_int_node 1) (new_int_node 2)) (init_state 1)
       = Inr (0, init_state 1)
   \<and> plain_stmt (new_print_node (new_int_node 7))
   \<and> plain_stmt (new_print_node (new_int_node 8))
   \<and> map_sum id yytree (execute_stmt (new_print_node (new_int_node 7)) (init_state 1))
       = Inr [tree_block (new_print_node (new_int_node 7))]
   \<and> map_sum id yytree
        (execute_list
           (stmts_of [new_print_node (new_int_node 7), new_print_node (new_int_node 8)])
           (init_state 1))
       = Inr [tree_block (new_print_node (new_int_node 7)),
              tree_block (new_print_node (new_int_node 8))]
   \<and> map_sum id yytree
        (execute_stmt
           (if_action (new_op_node ''=='' (new_int_node 1) (new_int_node 1))
              (stmts_of [new_print_node (new_int_node 7), new_print_node (new_int_node 8)]))
           (init_state 1))
       = Inr [tree_block (if_action (new_op_node ''=='' (new_int_node 1) (new_int_node 1))
                (stmts_of [new_print_node (new_int_node 7), new_print_node (new_int_node 8)])),
              tree_block (new_print_node (new_int_node 7)),
              tree_block (new_print_node (new_int_node 8))]
   \<and> eval_expr
        (new_op_node ''/''
           (new_op_node ''-'' (new_op_node ''-'' (new_int_node 0) (new_int_node 2147483647))
              (new_int_node 1))
           (new_op_node ''-'' (new_int_node 0) (new_int_node 1)))
        (init_state 1)
       = Inl (DivisionOverflow, init_state 1)
   \<and> execute_stmt
        (new_print_node
           (new_op_node ''/''
              (new_op_node ''-'' (new_op_node ''-'' (new_int_node 0) (new_int_node 2147483647))
                 (new_int_node 1))
              (new_op_node ''-'' (new_int_node 0) (new_int_node 1))))
        (init_state 1)
       = Inl (DivisionOverflow,
              (init_state 1)\<lparr>yytree :=
                [tree_block
                   (new_print_node
                      (new_op_node ''/''
                         (new_op_node ''-''
                            (new_op_node ''-'' (new_int_node 0) (new_int_node 2147483647))
                            (new_int_node 1))
                         (new_op_node ''-'' (new_int_node 0) (new_int_node 1))))]\<rparr>)"
proof -
  let ?ne = "new_op_node ''=='' (new_int_node 1) (new_int_node 2)"
  let ?eq = "new_op_node ''=='' (new_int_node 1) (new_int_node 1)"
  let ?p7 = "new_print_node (new_int_node 7)"
  let ?p8 = "new_print_node (new_int_node 8)"
  let ?body = "stmts_of [?p7, ?p8]"
  let ?q = "new_op_node ''/''
        (new_op_node ''-'' (new_op_node ''-'' (new_int_node 0) (new_int_node 2147483647))
           (new_int_node 1))
        (new_op_node ''-'' (new_int_node 0) (new_int_node 1))"
  have shape: "if_action c t = Node ''if'' c (Node ''branches'' t Null N_BRANCHES 0 (- 1)) N_IF 0 (- 1)"
    for c t
    by (simp add: builders)
  have pshape: "new_print_node x = Node ''print'' x Null N_PRINT 0 (- 1)" for x
    by (simp add: builders)
  have ev: "eval_expr ?ne (init_state 1) = Inr (0, init_state 1)"
    by (simp add: builders c_bool_def)
  have ev1: "eval_expr ?eq (init_state 1) = Inr (1, init_state 1)"
    by (simp add: builders c_bool_def)
  have plain: "plain_stmt ?p7" "plain_stmt ?p8"
    by (simp_all add: plain_stmt_def builders)
  have y0: "yytree (init_state 1) = []" by (simp add: init_state_def)
  have e0: "erase_trace (init_state 1) = init_state 1"
    by (simp add: erase_trace_def init_state_def)
  note skipped = trace_one_block_per_executed_statement
    [where t = ?body and s = "init_state 1" and sc = "init_state 1"
       and blbl = "''branches''" and biv = 0 and bvid = "- 1", OF shape[of ?ne ?body]]
  from skipped[THEN conjunct2, THEN conjunct2, THEN conjunct2, THEN conjunct2, THEN conjunct1] ev
  have sk: "\<exists>s3. execute_stmt (if_action ?ne ?body) (init_state 1) = Inr s3
      \<and> yytree s3 = [tree_block (if_action ?ne ?body)]"
    by (simp add: y0)
  have run: "execute_stmt (if_action ?ne ?body) (init_state 1)
     = Inr ((init_state 1)\<lparr>yytree := [tree_block (if_action ?ne ?body)]\<rparr>)"
    unfolding shape by (simp add: execute_if_unfold[OF ev] execute_list.simps y0)
  obtain s'' where body: "execute_list ?body (init_state 1) = Inr s''"
    by (simp add: builders runners)
  obtain s4 where taken: "execute_stmt (if_action ?eq ?body) (init_state 1) = Inr s4"
    by (simp add: builders runners)
  obtain s5 where single: "execute_stmt ?p7 (init_state 1) = Inr s5"
    by (simp add: builders runners)
  note listed = trace_one_block_per_executed_statement
    [where xs = "[?p7, ?p8]" and s = "init_state 1" and s'' = s'', OF pshape[of "new_int_node 7"]]
  from listed plain body have ys: "yytree s'' = [tree_block ?p7, tree_block ?p8]"
    by (simp add: y0)
  with body have a: "map_sum id yytree (execute_list ?body (init_state 1))
       = Inr [tree_block ?p7, tree_block ?p8]"
    by simp
  note ran = trace_one_block_per_executed_statement
    [where t = ?body and e = Null and s = "init_state 1"
       and sc = "init_state 1" and s' = s4 and blbl = "''branches''" and biv = 0 and bvid = "- 1"
       and c = 1, OF shape[of ?eq ?body]]
  from ran ev1 taken
  have "\<exists>s2. execute_list ?body (erase_trace (init_state 1)) = Inr s2
      \<and> yytree s4 = yytree (init_state 1) @ tree_block (if_action ?eq ?body) # yytree s2"
    by simp
  with body ys have "yytree s4 = [tree_block (if_action ?eq ?body), tree_block ?p7, tree_block ?p8]"
    by (auto simp: e0 y0)
  with taken have b: "map_sum id yytree (execute_stmt (if_action ?eq ?body) (init_state 1))
       = Inr [tree_block (if_action ?eq ?body), tree_block ?p7, tree_block ?p8]"
    by simp
  note printed = trace_one_block_per_executed_statement
    [where s = "init_state 1" and s' = s5, OF pshape[of "new_int_node 7"]]
  from printed single have "yytree s5 = [tree_block ?p7]"
    by (simp add: y0)
  with single have p: "map_sum id yytree (execute_stmt ?p7 (init_state 1)) = Inr [tree_block ?p7]"
    by simp
  have evq: "eval_expr ?q (init_state 1) = Inl (DivisionOverflow, init_state 1)"
    using eval_op_unfold(4)[OF int_min_expr(1) int_min_expr(2), of 0 "- 1" "init_state 1"]
    by (simp add: new_op_node_def[of "''/''"] new_node_kind_def c_div_int_min)
  note stopped = trace_one_block_per_executed_statement
    [where s = "init_state 1" and f = DivisionOverflow
       and sf = "init_state 1", OF pshape[of ?q]]
  from stopped evq
  have st: "execute_stmt (new_print_node ?q) (init_state 1)
      = Inl (DivisionOverflow, (init_state 1)\<lparr>yytree := [tree_block (new_print_node ?q)]\<rparr>)"
    by (simp add: y0)
  from sk run ev plain p a b evq st show ?thesis by blast
qed

section \<open>A declaration or assignment without a variable on the left\<close>

text \<open>
  C9. The grammar gives every declaration and assignment the node of \<^verbatim>\<open>new_var_node\<close> as
  left child (lines 1449 to 1460); the test \<^verbatim>\<open>varNode->kind == N_VAR\<close> is there for a node
  of another kind. For a statement with such a left child, once its expression is
  evaluated, the line \<^verbatim>\<open>Error: Declaration left side is not a variable at line <n>\<close> (or
  \<^verbatim>\<open>Assignment\<close>) is added to the error file, after the lines of the evaluation; the
  variables and the output file are those before the statement; and the statements
  after it in the list are executed from the resulting state.
\<close>

theorem malformed_target_reported:
  assumes ev: "eval_expr e s = Inr (val, s1)"
    and vk: "vk \<noteq> N_VAR"
    and k: "k = N_DECL \<and> what = ''Declaration'' \<or> k = N_ASSIGN \<and> what = ''Assignment''"
    and stmt: "stmt = Node lbl (Node vlbl vl vr vk viv ident) e k iv vid"
  shows "\<exists>s'. execute_stmt stmt s = Inr s'
     \<and> s' = s\<lparr>yytree := yytree s @ [tree_block stmt],
              yyError := yyError s1 @
                [''Error: '' @ what @ '' left side is not a variable at line ''
                   @ show_d (yylineno s) @ ''\<newline>'']\<rparr>
     \<and> (\<exists>errs. yyError s1 = yyError s @ errs)
     \<and> sym_tab s' = sym_tab s
     \<and> yyout s' = yyout s
     \<and> execute_list (stmts_of (stmt # rest)) s = execute_list (stmts_of rest) s'"
proof -
  let ?s' = "s\<lparr>yytree := yytree s @ [tree_block stmt],
              yyError := yyError s1 @
                [''Error: '' @ what @ '' left side is not a variable at line ''
                   @ show_d (yylineno s) @ ''\<newline>'']\<rparr>"
  have run: "execute_stmt stmt s = Inr ?s'"
    unfolding stmt using ev vk k by (rule execute_malformed_unfold)
  from eval_expr_frame[OF ev] have errs: "\<exists>errs. yyError s1 = yyError s @ errs" by simp
  have next_stmt: "execute_list (stmts_of (stmt # rest)) s = execute_list (stmts_of rest) ?s'"
    by (simp add: execute_list_stmts_of run)
  from run errs next_stmt show ?thesis by simp
qed

theorem malformed_target_reported_witness:
  "eval_expr (new_int_node 1) (init_state 1) = Inr (1, init_state 1)
   \<and> N_INT \<noteq> N_VAR
   \<and> run_program 1
       (stmts_of [new_decl_node (new_int_node 5) (new_int_node 1),
                  new_print_node (new_int_node 9)])
     = Inr ((init_state 1)\<lparr>
         yyout := [''Print: 9\<newline>''],
         yytree := [tree_block (new_decl_node (new_int_node 5) (new_int_node 1)),
                    tree_block (new_print_node (new_int_node 9))],
         yyError := [''Error: Declaration left side is not a variable at line 1\<newline>'']\<rparr>)
   \<and> run_program 1
       (stmts_of [new_assign_node (new_int_node 5) (new_int_node 1),
                  new_print_node (new_int_node 9)])
     = Inr ((init_state 1)\<lparr>
         yyout := [''Print: 9\<newline>''],
         yytree := [tree_block (new_assign_node (new_int_node 5) (new_int_node 1)),
                    tree_block (new_print_node (new_int_node 9))],
         yyError := [''Error: Assignment left side is not a variable at line 1\<newline>'']\<rparr>)"
proof -
  let ?d = "new_decl_node (new_int_node 5) (new_int_node 1)"
  let ?a = "new_assign_node (new_int_node 5) (new_int_node 1)"
  let ?p = "new_print_node (new_int_node 9)"
  have ev: "eval_expr (new_int_node 1) (init_state 1) = Inr (1, init_state 1)"
    by (simp add: builders)
  have vk: "N_INT \<noteq> N_VAR" by simp
  have dshape: "?d = Node ''dec'' (Node (''INTEGER('' @ show_d 5 @ '')'') Null Null N_INT 5 (- 1))
      (new_int_node 1) N_DECL 0 (- 1)"
    by (simp add: new_decl_node_def new_node_kind_def new_int_node_def[of 5])
  have ashape: "?a = Node ''assign'' (Node (''INTEGER('' @ show_d 5 @ '')'') Null Null N_INT 5 (- 1))
      (new_int_node 1) N_ASSIGN 0 (- 1)"
    by (simp add: new_assign_node_def new_node_kind_def new_int_node_def[of 5])
  have i: "yytree (init_state 1) = []" "yyError (init_state 1) = []"
    "yylineno (init_state 1) = 1" "yyout (init_state 1) = []"
    by (simp_all add: init_state_def)
  have one: "show_d 1 = ''1''" by (simp add: runners)
  have pr: "execute_list (stmts_of [?p]) (s\<lparr>yytree := t, yyError := er\<rparr>)
      = Inr (s\<lparr>yytree := t @ [tree_block ?p], yyError := er, yyout := yyout s @ [''Print: 9\<newline>'']\<rparr>)"
    for s t er
    by (simp add: builders runners)
  note decl = malformed_target_reported
    [where what = "''Declaration''" and rest = "[?p]", OF ev vk _ dshape]
  note assign = malformed_target_reported
    [where what = "''Assignment''" and rest = "[?p]", OF ev vk _ ashape]
  from decl have d: "run_program 1 (stmts_of [?d, ?p])
     = Inr ((init_state 1)\<lparr>
         yyout := [''Print: 9\<newline>''],
         yytree := [tree_block ?d, tree_block ?p],
         yyError := [''Error: Declaration left side is not a variable at line 1\<newline>'']\<rparr>)"
    by (simp add: run_program_def i one pr)
  from assign have a: "run_program 1 (stmts_of [?a, ?p])
     = Inr ((init_state 1)\<lparr>
         yyout := [''Print: 9\<newline>''],
         yytree := [tree_block ?a, tree_block ?p],
         yyError := [''Error: Assignment left side is not a variable at line 1\<newline>'']\<rparr>)"
    by (simp add: run_program_def i one pr)
  from ev vk d a show ?thesis by blast
qed

end
